theory Spec2Isabelle
  imports Main
begin

section \<open>Time and durations (Go package time)\<close>

text \<open>
  A \<open>time.Duration\<close> is an int64 count of nanoseconds: it is an \<open>int\<close> here, with the
  wrap-around of int64 arithmetic written out (\<open>int64\<close>) and Go's division, which truncates
  towards zero (\<open>go_div\<close>, \<open>go_mod\<close>). A \<open>time.Time\<close> is an instant, counted in nanoseconds
  since the Unix epoch; its range (int64 seconds) is far wider than that of a duration and is
  not bounded here. \<open>Time.Sub\<close> saturates at the least and greatest duration, as the library
  documents.
\<close>

type_synonym duration = int
type_synonym time = int

definition minDuration :: duration where
  "minDuration = - (2 ^ 63)"

definition maxDuration :: duration where
  "maxDuration = 2 ^ 63 - 1"

definition int64 :: "int \<Rightarrow> int" where
  "int64 x = (x + 2 ^ 63) mod 2 ^ 64 - 2 ^ 63"

definition go_div :: "int \<Rightarrow> int \<Rightarrow> int" where
  "go_div a b = sgn a * sgn b * (\<bar>a\<bar> div \<bar>b\<bar>)"

definition go_mod :: "int \<Rightarrow> int \<Rightarrow> int" where
  "go_mod a b = a - b * go_div a b"

definition dur_mul :: "duration \<Rightarrow> int \<Rightarrow> duration" where
  "dur_mul d k = int64 (d * k)"

definition dur_div :: "duration \<Rightarrow> int \<Rightarrow> duration" where
  "dur_div d k = int64 (go_div d k)"

definition dur_add :: "duration \<Rightarrow> duration \<Rightarrow> duration" where
  "dur_add d e = int64 (d + e)"

definition Time_Sub :: "time \<Rightarrow> time \<Rightarrow> duration" where
  "Time_Sub t u =
     (let d = t - u
      in if d < minDuration then minDuration
         else if maxDuration < d then maxDuration
         else d)"

definition Time_Add :: "time \<Rightarrow> duration \<Rightarrow> time" where
  "Time_Add t d = t + d"

definition UnixNano :: "time \<Rightarrow> int" where
  "UnixNano t = int64 t"

definition Second :: duration where
  "Second = 1000000000"

text \<open>The zero \<open>time.Time{}\<close>: 1 January of year 1, 00:00 UTC.\<close>

definition zero_Time :: time where
  "zero_Time = - 62135596800 * 1000000000"


section \<open>Errors, panics and formatting\<close>

text \<open>
  Go errors are values. \<open>ErrNotReady\<close> and \<open>ErrAuthRequired\<close> are the two sentinels of the
  repository, \<open>ErrorsNew\<close> is an error made by \<open>errors.New\<close> at the place of the failure,
  \<open>HTTPStatusError\<close> is the error \<open>doJSON\<close> formats for a response outside 2xx, and
  \<open>LibraryError\<close> is an error handed back by the platform (transport, JSON, X.509).
  A run-time panic is the value \<open>Panics\<close> of an \<open>outcome\<close>.
\<close>

datatype error =
    ErrNotReady
  | ErrAuthRequired
  | ErrorsNew string
  | HTTPStatusError int string
  | LibraryError string

datatype 'a outcome = Returns 'a | Panics

text \<open>Decimal printing of an integer (\<open>%d\<close>, \<open>big.Int.String\<close>).\<close>

definition digit_char :: "int \<Rightarrow> char" where
  "digit_char n = ''0123456789'' ! nat (n mod 10)"

function show_digits :: "int \<Rightarrow> string" where
  "show_digits n = (if n < 10 then [digit_char n] else show_digits (n div 10) @ [digit_char n])"
  by pat_completeness auto
termination
  by (relation "measure nat") auto

declare show_digits.simps [simp del]

definition show_int :: "int \<Rightarrow> string" where
  "show_int i = (if i < 0 then CHR ''-'' # show_digits (- i) else show_digits i)"

text \<open>\<open>err.Error()\<close>; the fourth line is \<open>fmt.Errorf("vault http %d: %s", status, body)\<close>.\<close>

fun Error :: "error \<Rightarrow> string" where
  "Error ErrNotReady = ''cert bundle not ready''"
| "Error ErrAuthRequired = ''vault auth required''"
| "Error (ErrorsNew s) = s"
| "Error (HTTPStatusError code msg) = ''vault http '' @ show_int code @ '': '' @ msg"
| "Error (LibraryError s) = s"


section \<open>Certificates and bundles\<close>

text \<open>
  A \<open>*url.URL\<close> is kept as its scheme and the text \<open>String()\<close> returns for it. An
  \<open>x509.Certificate\<close> keeps the fields the repository reads. Pointers that may be nil are
  options.
\<close>

record url =
  Scheme :: string
  url_String :: string

record x509_certificate =
  Subject_CommonName :: string
  SerialNumber :: "int option"
  DNSNames :: "string list"
  URIs :: "url option list"
  cert_NotAfter :: time

record tls_certificate =
  Certificate :: "string list"
  Leaf :: "x509_certificate option"

text \<open>An \<open>x509.CertPool\<close> is the list of the PEM entries whose certificates it holds.\<close>

type_synonym cert_pool = "string list"

record Bundle =
  Cert :: "tls_certificate option"
  CA :: cert_pool
  NotAfter :: time

record BundleInfo =
  info_NotAfter :: time
  info_CommonName :: string
  info_SerialNumber :: string
  info_DNSNames :: "string list"
  info_URIs :: "string list"


section \<open>The rotation manager (package certmanager)\<close>

text \<open>
  A hook is a Go function without a result: what it does is whether it returns, panics or
  never returns. A clock is the sequence of instants its successive calls return. An issuer
  is the sequence of results of its successive \<open>Issue\<close> calls, each a pair of a bundle pointer
  and an error as Go returns them.
\<close>

datatype hook_outcome = HookReturns | HookPanics string | HookBlocks

datatype Context = Background | WithTimeout Context duration

type_synonym clock = "nat \<Rightarrow> time"
type_synonym issue_result = "Bundle option \<times> error option"
type_synonym issuer = "nat \<Rightarrow> issue_result"

record Options =
  MinRefresh :: duration
  ErrorBackoff :: duration
  HookTimeout :: duration
  OnRotate :: "(Context \<Rightarrow> BundleInfo \<Rightarrow> hook_outcome) option"
  OnError :: "(Context \<Rightarrow> error \<Rightarrow> hook_outcome) option"
  Now :: "clock option"

text \<open>
  \<open>curr\<close> is the \<open>atomic.Value\<close>: \<open>None\<close> while nothing was stored, \<open>Some p\<close> once the bundle
  pointer \<open>p\<close> (possibly nil) was stored.
\<close>

record Manager =
  issuer_of :: issuer
  curr :: "Bundle option option"
  opts :: Options

text \<open>What the manager's environment has been asked so far.\<close>

record world =
  issue_calls :: nat
  clock_calls :: nat

text \<open>
  The platform functions the manager uses: the real-time clock \<open>time.Now\<close> and
  \<open>x509.ParseCertificate\<close>.
\<close>

record platform =
  time_Now :: clock
  x509_ParseCertificate :: "string \<Rightarrow> error + x509_certificate"

definition NewWithOptions :: "platform \<Rightarrow> issuer \<Rightarrow> Options \<Rightarrow> Manager" where
  "NewWithOptions P iss o0 =
     (let o1 = (if MinRefresh o0 \<le> 0 then o0\<lparr>MinRefresh := 30 * Second\<rparr> else o0);
          o2 = (if ErrorBackoff o1 \<le> 0 then o1\<lparr>ErrorBackoff := 15 * Second\<rparr> else o1);
          o3 = (if HookTimeout o2 \<le> 0 then o2\<lparr>HookTimeout := 2 * Second\<rparr> else o2);
          o4 = (if Now o3 = None then o3\<lparr>Now := Some (time_Now P)\<rparr> else o3)
      in \<lparr>issuer_of = iss, curr = None, opts = o4\<rparr>)"

definition zero_options :: Options where
  "zero_options =
     \<lparr>MinRefresh = 0, ErrorBackoff = 0, HookTimeout = 0,
      OnRotate = None, OnError = None, Now = None\<rparr>"

definition New :: "platform \<Rightarrow> issuer \<Rightarrow> Manager" where
  "New P iss = NewWithOptions P iss zero_options"

definition Current :: "Manager \<Rightarrow> Bundle option \<times> error option" where
  "Current m = (case curr m of Some v \<Rightarrow> (v, None) | None \<Rightarrow> (None, Some ErrNotReady))"

definition refresh ::
  "Manager \<Rightarrow> world \<Rightarrow> (Manager \<times> world) \<times> (Bundle option \<times> time \<times> error option) outcome" where
  "refresh m w =
     (let r = issuer_of m (issue_calls w);
          w1 = w\<lparr>issue_calls := Suc (issue_calls w)\<rparr>
      in case snd r of
           Some e \<Rightarrow> ((m, w1), Returns (None, zero_Time, Some e))
         | None \<Rightarrow>
             (let m1 = m\<lparr>curr := Some (fst r)\<rparr>
              in case Now (opts m1) of
                   None \<Rightarrow> ((m1, w1), Panics)
                 | Some clk \<Rightarrow>
                     (let now = clk (clock_calls w1);
                          w2 = w1\<lparr>clock_calls := Suc (clock_calls w1)\<rparr>
                      in case fst r of
                           None \<Rightarrow> ((m1, w2), Panics)
                         | Some b \<Rightarrow>
                             (let ttl = Time_Sub (NotAfter b) now
                              in ((m1, w2),
                                  Returns (Some b, Time_Add now (dur_div (dur_mul ttl 2) 3), None))))))"

definition Start :: "Manager \<Rightarrow> world \<Rightarrow> (Manager \<times> world) \<times> error option outcome" where
  "Start m w =
     (case refresh m w of
        (s, Panics) \<Rightarrow> (s, Panics)
      | (s, Returns (_, _, err)) \<Rightarrow> (s, Returns err))"

text \<open>Any number of refresh attempts, one after the other, whatever each of them returns.\<close>

fun refreshes :: "nat \<Rightarrow> Manager \<times> world \<Rightarrow> Manager \<times> world" where
  "refreshes 0 s = s"
| "refreshes (Suc n) s = refreshes n (fst (refresh (fst s) (snd s)))"

text \<open>
  \<open>bundleInfo\<close>: the read-only view of a bundle that the rotate hook receives.
  \<open>(*big.Int).String()\<close> prints a nil pointer as \<open><nil>\<close>.
\<close>

definition bigint_String :: "int option \<Rightarrow> string" where
  "bigint_String p = (case p of None \<Rightarrow> ''<nil>'' | Some i \<Rightarrow> show_int i)"

fun uri_strings :: "url option list \<Rightarrow> string list" where
  "uri_strings [] = []"
| "uri_strings (None # us) = uri_strings us"
| "uri_strings (Some u # us) = url_String u # uri_strings us"

definition bundleInfo :: "platform \<Rightarrow> Bundle \<Rightarrow> BundleInfo" where
  "bundleInfo P b =
     (let info = \<lparr>info_NotAfter = NotAfter b, info_CommonName = [], info_SerialNumber = [],
                  info_DNSNames = [], info_URIs = []\<rparr>
      in case Cert b of
           None \<Rightarrow> info
         | Some c \<Rightarrow>
             (let leaf =
                    (case Leaf c of
                       Some l \<Rightarrow> Some l
                     | None \<Rightarrow>
                         (case Certificate c of
                            [] \<Rightarrow> None
                          | der # _ \<Rightarrow>
                              (case x509_ParseCertificate P der of
                                 Inr parsed \<Rightarrow> Some parsed
                               | Inl _ \<Rightarrow> None)))
              in case leaf of
                   None \<Rightarrow> info
                 | Some l \<Rightarrow>
                     info\<lparr>info_CommonName := Subject_CommonName l,
                          info_SerialNumber := bigint_String (SerialNumber l),
                          info_DNSNames := DNSNames l,
                          info_URIs := (if 0 < length (URIs l) then uri_strings (URIs l) else [])\<rparr>))"

text \<open>
  \<open>onRotate\<close> and \<open>onError\<close> make a context with the hook timeout and start a goroutine that
  runs the hook; they return at once. The goroutine they start is a \<open>hook_task\<close>: the context
  it was given and what the hook does with its arguments. Nothing of the task is run by the
  caller. The goroutine's body is \<open>defer cancel(); hook(ctx, arg)\<close>: the one deferred call,
  \<open>cancel\<close>, runs when the hook returns or panics and does not call \<open>recover\<close>, so a panic of
  the hook leaves the goroutine unrecovered.
\<close>

record hook_task =
  task_ctx :: Context
  task_outcome :: hook_outcome

datatype goroutine_exit = Exited | Unrecovered string | Blocked

definition hook_goroutine :: "hook_task \<Rightarrow> goroutine_exit \<times> bool" where
  "hook_goroutine t =
     (case task_outcome t of
        HookReturns \<Rightarrow> (Exited, True)
      | HookPanics v \<Rightarrow> (Unrecovered v, True)
      | HookBlocks \<Rightarrow> (Blocked, False))"

definition onRotate :: "platform \<Rightarrow> Manager \<Rightarrow> Bundle option \<Rightarrow> hook_task option" where
  "onRotate P m bp =
     (case OnRotate (opts m) of
        None \<Rightarrow> None
      | Some h \<Rightarrow>
          (case bp of
             None \<Rightarrow> None
           | Some b \<Rightarrow>
               (let ctx = WithTimeout Background (HookTimeout (opts m));
                    info = bundleInfo P b
                in Some \<lparr>task_ctx = ctx, task_outcome = h ctx info\<rparr>)))"

definition onError :: "Manager \<Rightarrow> error option \<Rightarrow> hook_task option" where
  "onError m err =
     (case OnError (opts m) of
        None \<Rightarrow> None
      | Some h \<Rightarrow>
          (case err of
             None \<Rightarrow> None
           | Some e \<Rightarrow>
               (let ctx = WithTimeout Background (HookTimeout (opts m))
                in Some \<lparr>task_ctx = ctx, task_outcome = h ctx e\<rparr>)))"

text \<open>
  \<open>Run\<close>. What the loop does is the list of its events: the goroutines it starts and the
  waits it asks \<open>sleep\<close> for. \<open>sleep\<close> returns true when the timer fires and false when the
  caller's context is done first: the loop reads these answers from a script, and is still
  running when the script is used up.
\<close>

datatype event = Dispatched hook_task | Slept duration

datatype run_status = Returned | Running | Crashed

definition dispatch :: "hook_task option \<Rightarrow> event list" where
  "dispatch t = (case t of None \<Rightarrow> [] | Some x \<Rightarrow> [Dispatched x])"

definition floor_wait :: "Manager \<Rightarrow> time \<Rightarrow> time \<Rightarrow> duration" where
  "floor_wait m next now =
     (let wait = Time_Sub next now
      in if wait < MinRefresh (opts m) then MinRefresh (opts m) else wait)"

text \<open>The jitter; a zero divisor is Go's integer-division panic.\<close>

definition jitter :: "time \<Rightarrow> duration \<Rightarrow> duration option" where
  "jitter now wait =
     (let d = int64 (dur_div wait 10 + 1)
      in if d = 0 then None else Some (go_mod (UnixNano now) d))"

text \<open>The wait after a refresh that succeeded: the floor, then the jitter.\<close>

definition next_wait :: "Manager \<Rightarrow> world \<Rightarrow> time \<Rightarrow> world \<times> duration outcome" where
  "next_wait m w next =
     (case Now (opts m) of
        None \<Rightarrow> (w, Panics)
      | Some clk \<Rightarrow>
          (let now1 = clk (clock_calls w);
               w2 = w\<lparr>clock_calls := Suc (clock_calls w)\<rparr>;
               wait = floor_wait m next now1;
               now2 = clk (clock_calls w2);
               w3 = w2\<lparr>clock_calls := Suc (clock_calls w2)\<rparr>
           in case jitter now2 wait of
                None \<Rightarrow> (w3, Panics)
              | Some j \<Rightarrow> (w3, Returns (dur_add wait j))))"

definition run_iter ::
  "platform \<Rightarrow> Manager \<Rightarrow> world \<Rightarrow> (Manager \<times> world) \<times> event list \<times> duration outcome" where
  "run_iter P m w =
     (case refresh m w of
        (s, Panics) \<Rightarrow> (s, [], Panics)
      | ((m1, w1), Returns (bp, next, err)) \<Rightarrow>
          (case err of
             Some e \<Rightarrow> ((m1, w1), dispatch (onError m1 (Some e)), Returns (ErrorBackoff (opts m1)))
           | None \<Rightarrow>
               (let evs = dispatch (onRotate P m1 bp);
                    r = next_wait m1 w1 next
                in ((m1, fst r), evs, snd r))))"

fun run_loop ::
  "platform \<Rightarrow> Manager \<Rightarrow> world \<Rightarrow> bool list \<Rightarrow> (Manager \<times> world) \<times> event list \<times> run_status" where
  "run_loop P m w [] = ((m, w), [], Running)"
| "run_loop P m w (woke # script) =
     (case run_iter P m w of
        (s, evs, Panics) \<Rightarrow> (s, evs, Crashed)
      | ((m1, w1), evs, Returns d) \<Rightarrow>
          (if woke
           then (case run_loop P m1 w1 script of
                   (s, evs2, st) \<Rightarrow> (s, evs @ Slept d # evs2, st))
           else ((m1, w1), evs @ [Slept d], Returned)))"

definition Run ::
  "platform \<Rightarrow> Manager \<Rightarrow> world \<Rightarrow> bool list \<Rightarrow> (Manager \<times> world) \<times> event list \<times> run_status" where
  "Run P m w script =
     (case snd (Current m) of
        None \<Rightarrow> run_loop P m w script
      | Some _ \<Rightarrow>
          (case refresh m w of
             (s, Panics) \<Rightarrow> (s, [], Crashed)
           | ((m1, w1), Returns (_, _, err)) \<Rightarrow>
               (case run_loop P m1 w1 script of
                  (s, evs2, st) \<Rightarrow> (s, dispatch (onError m1 err) @ evs2, st))))"


text \<open>
  What the hooks can and cannot reach. Two managers \<open>differ_in_hooks\<close> when they agree on
  everything but the two hook functions. \<open>sleeps\<close> are the waits of a run and \<open>dispatched\<close>
  the goroutines it started. A Go program ends when a goroutine panics and nothing recovers
  the panic: \<open>unrecovered\<close> lists the panics that the started goroutines end with, and
  \<open>process_status\<close> is the status of the loop in a process that has run them.
\<close>

definition differ_in_hooks :: "Manager \<Rightarrow> Manager \<Rightarrow> bool" where
  "differ_in_hooks m m' =
     (issuer_of m = issuer_of m' \<and> curr m = curr m'
      \<and> MinRefresh (opts m) = MinRefresh (opts m')
      \<and> ErrorBackoff (opts m) = ErrorBackoff (opts m')
      \<and> HookTimeout (opts m) = HookTimeout (opts m')
      \<and> Now (opts m) = Now (opts m'))"

definition hooks_never_panic :: "Manager \<Rightarrow> bool" where
  "hooks_never_panic m =
     ((\<forall>h ctx info v. OnRotate (opts m) = Some h \<longrightarrow> h ctx info \<noteq> HookPanics v)
      \<and> (\<forall>h ctx e v. OnError (opts m) = Some h \<longrightarrow> h ctx e \<noteq> HookPanics v))"

fun sleeps :: "event list \<Rightarrow> duration list" where
  "sleeps [] = []"
| "sleeps (Slept d # es) = d # sleeps es"
| "sleeps (Dispatched t # es) = sleeps es"

fun dispatched :: "event list \<Rightarrow> hook_task list" where
  "dispatched [] = []"
| "dispatched (Slept d # es) = dispatched es"
| "dispatched (Dispatched t # es) = t # dispatched es"

fun unrecovered :: "hook_task list \<Rightarrow> string list" where
  "unrecovered [] = []"
| "unrecovered (t # ts) =
     (case fst (hook_goroutine t) of
        Unrecovered v \<Rightarrow> v # unrecovered ts
      | _ \<Rightarrow> unrecovered ts)"

definition process_status :: "event list \<Rightarrow> run_status \<Rightarrow> run_status" where
  "process_status evs st = (if unrecovered (dispatched evs) = [] then st else Crashed)"

text \<open>
  The schedule as the specification words it, without rounding: the next refresh is at
  \<open>t0 + (2/3) L\<close>, that is, three times its distance from \<open>t0\<close> is twice \<open>L\<close>.
\<close>

definition two_thirds_point :: "time \<Rightarrow> duration \<Rightarrow> time \<Rightarrow> bool" where
  "two_thirds_point t0 L next = (3 * (next - t0) = 2 * L)"


section \<open>The identity authorizer (package spiffe)\<close>

text \<open>
  The functions of package \<open>strings\<close> that the matcher calls. Go strings are byte strings
  and every separator or pattern the matcher passes is the single byte \<open>/\<close> or \<open>*\<close>, so the
  separator is a \<open>char\<close>. \<open>strings.Split\<close> returns the pieces between the separators, one
  more than there are separators.
\<close>

fun split_from :: "char \<Rightarrow> string \<Rightarrow> string \<Rightarrow> string list" where
  "split_from sep acc [] = [rev acc]"
| "split_from sep acc (c # cs) =
     (if c = sep then rev acc # split_from sep [] cs else split_from sep (c # acc) cs)"

definition strings_Split :: "string \<Rightarrow> char \<Rightarrow> string list" where
  "strings_Split s sep = split_from sep [] s"

definition strings_Count :: "string \<Rightarrow> char \<Rightarrow> nat" where
  "strings_Count s c = length (filter (\<lambda>x. x = c) s)"

definition strings_Contains :: "string \<Rightarrow> char \<Rightarrow> bool" where
  "strings_Contains s c = (c \<in> set s)"

definition strings_HasSuffix :: "string \<Rightarrow> char \<Rightarrow> bool" where
  "strings_HasSuffix s c = (s \<noteq> [] \<and> last s = c)"

definition strings_TrimSuffix :: "string \<Rightarrow> char \<Rightarrow> string" where
  "strings_TrimSuffix s c = (if strings_HasSuffix s c then butlast s else s)"

definition strings_HasPrefix :: "string \<Rightarrow> string \<Rightarrow> bool" where
  "strings_HasPrefix s p = (length p \<le> length s \<and> take (length p) s = p)"

text \<open>
  The loop \<open>for i, pseg := range psegs\<close> of \<open>matchSegments\<close>, from index \<open>i\<close> on: it reads
  \<open>vsegs[i]\<close>, which panics when \<open>i\<close> is out of range.
\<close>

fun match_loop :: "nat \<Rightarrow> string list \<Rightarrow> string list \<Rightarrow> bool outcome" where
  "match_loop i [] vsegs = Returns True"
| "match_loop i (pseg # rest) vsegs =
     (if length vsegs \<le> i then Panics
      else if pseg = ''+''
      then (if vsegs ! i = [] then Returns False else match_loop (Suc i) rest vsegs)
      else if pseg \<noteq> vsegs ! i then Returns False
      else match_loop (Suc i) rest vsegs)"

definition matchSegments :: "string \<Rightarrow> string \<Rightarrow> bool \<Rightarrow> bool outcome" where
  "matchSegments pattern value prefix =
     (let psegs0 = strings_Split pattern CHR ''/'';
          vsegs = strings_Split value CHR ''/'';
          psegs = (if prefix \<and> 0 < length psegs0 \<and> last psegs0 = []
                   then butlast psegs0 else psegs0)
      in if \<not> prefix \<and> length psegs \<noteq> length vsegs then Returns False
         else if prefix \<and> length vsegs < length psegs then Returns False
         else match_loop 0 psegs vsegs)"

definition matchGlob :: "string \<Rightarrow> string \<Rightarrow> bool outcome" where
  "matchGlob pattern value =
     (if pattern = [] \<or> value = [] then Returns False
      else if 1 < strings_Count pattern CHR ''*'' then Returns False
      else if strings_Contains pattern CHR ''*'' \<and> \<not> strings_HasSuffix pattern CHR ''*''
      then Returns False
      else if strings_HasSuffix pattern CHR ''*''
      then matchSegments (strings_TrimSuffix pattern CHR ''*'') value True
      else matchSegments pattern value False)"

text \<open>
  \<open>VerifyPeerCertificate\<close>. The three inner loops return at their first match; the loop over
  the URIs of the leaf goes on to the next URI when none of the rules matched. A nil
  certificate or URI pointer would be dereferenced: that is a panic.
\<close>

record Authorizer =
  AllowedExact :: "string list"
  AllowedPrefixes :: "string list"
  AllowedGlobs :: "string list"

fun any_exact :: "string \<Rightarrow> string list \<Rightarrow> bool" where
  "any_exact ident [] = False"
| "any_exact ident (exact # rest) = (if ident = exact then True else any_exact ident rest)"

fun any_prefix :: "string \<Rightarrow> string list \<Rightarrow> bool" where
  "any_prefix ident [] = False"
| "any_prefix ident (p # rest) =
     (if strings_HasPrefix ident p then True else any_prefix ident rest)"

fun any_glob :: "string \<Rightarrow> string list \<Rightarrow> bool outcome" where
  "any_glob ident [] = Returns False"
| "any_glob ident (glob # rest) =
     (case matchGlob glob ident of
        Panics \<Rightarrow> Panics
      | Returns True \<Rightarrow> Returns True
      | Returns False \<Rightarrow> any_glob ident rest)"

fun verify_uris :: "Authorizer \<Rightarrow> url option list \<Rightarrow> error option outcome" where
  "verify_uris a [] = Returns (Some (ErrorsNew ''client SPIFFE ID not allowed''))"
| "verify_uris a (None # us) = Panics"
| "verify_uris a (Some uri # us) =
     (if Scheme uri \<noteq> ''spiffe'' then verify_uris a us
      else (let ident = url_String uri
            in if any_exact ident (AllowedExact a) then Returns None
               else if any_prefix ident (AllowedPrefixes a) then Returns None
               else (case any_glob ident (AllowedGlobs a) of
                       Panics \<Rightarrow> Panics
                     | Returns True \<Rightarrow> Returns None
                     | Returns False \<Rightarrow> verify_uris a us)))"

definition VerifyPeerCertificate ::
  "Authorizer \<Rightarrow> string list \<Rightarrow> x509_certificate option list list \<Rightarrow> error option outcome" where
  "VerifyPeerCertificate a rawCerts verifiedChains =
     (case verifiedChains of
        [] \<Rightarrow> Returns (Some (ErrorsNew ''no verified chain''))
      | chain # _ \<Rightarrow>
          (case chain of
             [] \<Rightarrow> Returns (Some (ErrorsNew ''no verified chain''))
           | None # _ \<Rightarrow> Panics
           | Some leaf # _ \<Rightarrow> verify_uris a (URIs leaf)))"

text \<open>
  The restricted glob as the specification words it. A segment of the pattern matches a
  segment of the value when it is \<open>+\<close> and the value's segment is not empty, or when the two
  are the same. A pattern with more than one \<open>*\<close>, or with a \<open>*\<close> before its last
  character, never matches; with a
  last \<open>*\<close> the segments before it, a last empty one dropped, must match the first segments of
  the value; without \<open>*\<close> pattern and value must have the same number of segments.
\<close>

definition segment_matches :: "string \<Rightarrow> string \<Rightarrow> bool" where
  "segment_matches pseg vseg = (if pseg = ''+'' then vseg \<noteq> [] else pseg = vseg)"

definition drop_last_empty :: "string list \<Rightarrow> string list" where
  "drop_last_empty segs = (if segs \<noteq> [] \<and> last segs = [] then butlast segs else segs)"

definition glob_spec :: "string \<Rightarrow> string \<Rightarrow> bool" where
  "glob_spec pattern value =
     (pattern \<noteq> [] \<and> value \<noteq> []
      \<and> \<not> 1 < strings_Count pattern CHR ''*''
      \<and> CHR ''*'' \<notin> set (butlast pattern)
      \<and> (if last pattern = CHR ''*''
          then (let psegs = drop_last_empty (strings_Split (butlast pattern) CHR ''/'');
                    vsegs = strings_Split value CHR ''/''
                in length psegs \<le> length vsegs
                   \<and> list_all2 segment_matches psegs (take (length psegs) vsegs))
          else (let psegs = strings_Split pattern CHR ''/'';
                    vsegs = strings_Split value CHR ''/''
                in length psegs = length vsegs \<and> list_all2 segment_matches psegs vsegs)))"

text \<open>
  The rules of an authorizer as the specification words them: an identity is allowed when
  it is one of the exact rules, starts with one of the prefix rules (character by
  character, a plain string prefix), or matches one of the glob rules; a leaf is allowed
  when one of its URIs has the scheme \<open>spiffe\<close> and an allowed text.
\<close>

fun starts_with :: "string \<Rightarrow> string \<Rightarrow> bool" where
  "starts_with s [] = True"
| "starts_with [] (p # ps) = False"
| "starts_with (c # cs) (p # ps) = (c = p \<and> starts_with cs ps)"

definition rule_allows :: "Authorizer \<Rightarrow> string \<Rightarrow> bool" where
  "rule_allows a ident =
     (list_ex (\<lambda>exact. ident = exact) (AllowedExact a)
      \<or> list_ex (\<lambda>p. starts_with ident p) (AllowedPrefixes a)
      \<or> list_ex (\<lambda>g. glob_spec g ident) (AllowedGlobs a))"

definition leaf_allowed :: "Authorizer \<Rightarrow> x509_certificate \<Rightarrow> bool" where
  "leaf_allowed a leaf =
     list_ex (\<lambda>u. case u of
                    None \<Rightarrow> False
                  | Some uri \<Rightarrow> Scheme uri = ''spiffe'' \<and> rule_allows a (url_String uri))
       (URIs leaf)"


section \<open>The PKI backend client (package vault)\<close>

text \<open>
  What the client gets from outside. The HTTP transport answers a request with an error or
  a response; the answer may depend on every request sent before, so the transport is a
  function of the requests sent so far and of the new one, and the state of the world is
  the list of the requests sent. \<open>json.Marshal\<close> cannot fail on the two bodies the client
  sends (a map of strings and a struct of strings), so a request carries its body as data.
  The JSON decoders, \<open>path.Join\<close>, \<open>strings.TrimSpace\<close>, \<open>Duration.String\<close>, the PEM and
  X.509 parsers and the failure of \<open>http.NewRequestWithContext\<close> on a bad method or URL are
  functions of the library record, which extends the platform record of the manager. The mutex around the token is not modelled: one call
  runs at a time.
\<close>

record IssueRequest =
  req_CommonName :: string
  req_AltNames :: "string list"
  req_URISANs :: "string list"
  req_TTL :: string

record IssueResponse =
  resp_Certificate :: string
  resp_PrivateKey :: string
  CAChain :: "string list"
  IssuingCA :: string

datatype payload = LoginPayload string string | IssuePayload IssueRequest

record http_request =
  req_method :: string
  req_url :: string
  req_namespace :: "string option"
  req_token :: "string option"
  req_body :: payload

record http_response =
  StatusCode :: int
  Body :: string

record library = platform +
  http_Do :: "http_request list \<Rightarrow> http_request \<Rightarrow> error + http_response"
  http_NewRequest :: "string \<Rightarrow> string \<Rightarrow> error option"
  path_Join :: "string list \<Rightarrow> string"
  strings_TrimSpace :: "string \<Rightarrow> string"
  json_Decode_login :: "string \<Rightarrow> error + string"
  json_Decode_issue :: "string \<Rightarrow> error + IssueResponse"
  time_Duration_String :: "duration \<Rightarrow> string"
  tls_X509KeyPair :: "string \<Rightarrow> string \<Rightarrow> error + tls_certificate"
  AppendCertsFromPEM :: "string \<Rightarrow> bool"
  pem_Decode :: "string \<Rightarrow> string option"

record Client =
  Addr :: string
  Namespace :: string
  Token :: string
  RoleID :: string
  SecretID :: string
  AuthPath :: string

text \<open>\<open>strings.Contains\<close> with a substring, \<open>strings.TrimRight\<close> and \<open>strings.TrimLeft\<close>.\<close>

fun contains_substring :: "string \<Rightarrow> string \<Rightarrow> bool" where
  "contains_substring [] sub = (sub = [])"
| "contains_substring (c # cs) sub =
     (strings_HasPrefix (c # cs) sub \<or> contains_substring cs sub)"

definition strings_TrimLeft :: "string \<Rightarrow> char \<Rightarrow> string" where
  "strings_TrimLeft s c = dropWhile (\<lambda>x. x = c) s"

definition strings_TrimRight :: "string \<Rightarrow> char \<Rightarrow> string" where
  "strings_TrimRight s c = rev (dropWhile (\<lambda>x. x = c) (rev s))"

definition isAuthError :: "error \<Rightarrow> bool" where
  "isAuthError err =
     (let s = Error err
      in contains_substring s ''permission denied''
         \<or> contains_substring s ''http 403''
         \<or> contains_substring s ''http 401'')"

definition Client_url :: "Client \<Rightarrow> string \<Rightarrow> string" where
  "Client_url c p = strings_TrimRight (Addr c) CHR ''/'' @ ''/'' @ strings_TrimLeft p CHR ''/''"

definition doJSON ::
  "library \<Rightarrow> Client \<Rightarrow> http_request list \<Rightarrow> string \<Rightarrow> string \<Rightarrow> payload \<Rightarrow> bool
   \<Rightarrow> http_request list \<times> (error + http_response)" where
  "doJSON L c sent method u body requireAuth =
     (case http_NewRequest L method u of
        Some e \<Rightarrow> (sent, Inl e)
      | None \<Rightarrow>
          (if requireAuth \<and> Token c = [] then (sent, Inl ErrAuthRequired)
           else
             (let req = \<lparr>req_method = method, req_url = u,
                         req_namespace = (if Namespace c \<noteq> [] then Some (Namespace c) else None),
                         req_token = (if requireAuth then Some (Token c) else None),
                         req_body = body\<rparr>
              in case http_Do L sent req of
                   Inl e \<Rightarrow> (sent @ [req], Inl e)
                 | Inr resp \<Rightarrow>
                     (if 200 \<le> StatusCode resp \<and> StatusCode resp < 300
                      then (sent @ [req], Inr resp)
                      else (sent @ [req],
                            Inl (HTTPStatusError (StatusCode resp)
                                   (strings_TrimSpace L (Body resp))))))))"

definition ensureToken ::
  "library \<Rightarrow> Client \<Rightarrow> http_request list \<Rightarrow> (Client \<times> http_request list) \<times> error option" where
  "ensureToken L c sent =
     (if Token c \<noteq> [] then ((c, sent), None)
      else if RoleID c = [] \<or> SecretID c = [] then ((c, sent), Some ErrAuthRequired)
      else
        (let authPath = (if AuthPath c = [] then ''auth/approle/login'' else AuthPath c);
             endpoint = Client_url c (path_Join L [''v1'', authPath]);
             body = LoginPayload (RoleID c) (SecretID c)
         in case doJSON L c sent ''POST'' endpoint body False of
              (sent1, Inl e) \<Rightarrow> ((c, sent1), Some e)
            | (sent1, Inr resp) \<Rightarrow>
                (case json_Decode_login L (Body resp) of
                   Inl e \<Rightarrow> ((c, sent1), Some e)
                 | Inr tok \<Rightarrow>
                     (if tok = []
                      then ((c, sent1), Some (ErrorsNew ''vault approle auth returned empty token''))
                      else ((c\<lparr>Token := tok\<rparr>, sent1), None)))))"

text \<open>The endpoint \<open>ensureToken\<close> posts the login to.\<close>

definition login_endpoint :: "library \<Rightarrow> Client \<Rightarrow> string" where
  "login_endpoint L c =
     Client_url c (path_Join L [''v1'', if AuthPath c = [] then ''auth/approle/login'' else AuthPath c])"

definition decodeIssue :: "library \<Rightarrow> http_response \<Rightarrow> error + IssueResponse" where
  "decodeIssue L resp =
     (case json_Decode_issue L (Body resp) of
        Inl e \<Rightarrow> Inl e
      | Inr out \<Rightarrow>
          (if resp_Certificate out = [] \<or> resp_PrivateKey out = []
           then Inl (ErrorsNew ''vault issue response missing certificate/private_key'')
           else Inr \<lparr>resp_Certificate = resp_Certificate out, resp_PrivateKey = resp_PrivateKey out,
                     CAChain = CAChain out, IssuingCA = IssuingCA out\<rparr>))"

definition Client_Issue ::
  "library \<Rightarrow> Client \<Rightarrow> http_request list \<Rightarrow> string \<Rightarrow> string \<Rightarrow> IssueRequest
   \<Rightarrow> (Client \<times> http_request list) \<times> (error + IssueResponse)" where
  "Client_Issue L c sent pkiPath role req =
     (if Addr c = [] then ((c, sent), Inl (ErrorsNew ''vault addr required''))
      else if pkiPath = [] then ((c, sent), Inl (ErrorsNew ''pki path required''))
      else if role = [] then ((c, sent), Inl (ErrorsNew ''pki role required''))
      else
        (case ensureToken L c sent of
           (s1, Some e) \<Rightarrow> (s1, Inl e)
         | ((c1, sent1), None) \<Rightarrow>
             (let endpoint = Client_url c1 (path_Join L [''v1'', pkiPath, ''issue'', role])
              in case doJSON L c1 sent1 ''POST'' endpoint (IssuePayload req) True of
                   (sent2, Inr resp) \<Rightarrow> ((c1, sent2), decodeIssue L resp)
                 | (sent2, Inl err) \<Rightarrow>
                     (if isAuthError err \<and> RoleID c1 \<noteq> [] \<and> SecretID c1 \<noteq> []
                      then
                        (case ensureToken L (c1\<lparr>Token := []\<rparr>) sent2 of
                           (s3, Some e) \<Rightarrow> (s3, Inl e)
                         | ((c3, sent3), None) \<Rightarrow>
                             (case doJSON L c3 sent3 ''POST'' endpoint (IssuePayload req) True of
                                (sent4, Inl err2) \<Rightarrow> ((c3, sent4), Inl err2)
                              | (sent4, Inr resp) \<Rightarrow> ((c3, sent4), decodeIssue L resp)))
                      else ((c1, sent2), Inl err)))))"

text \<open>The endpoint \<open>Issue\<close> posts the issuance to.\<close>

definition issue_endpoint :: "library \<Rightarrow> Client \<Rightarrow> string \<Rightarrow> string \<Rightarrow> string" where
  "issue_endpoint L c pkiPath role = Client_url c (path_Join L [''v1'', pkiPath, ''issue'', role])"

text \<open>The requests of a list that ask for a certificate, and those that log in.\<close>

fun is_issue_request :: "http_request \<Rightarrow> bool" where
  "is_issue_request r = (case req_body r of IssuePayload _ \<Rightarrow> True | LoginPayload _ _ \<Rightarrow> False)"

definition issue_attempts :: "http_request list \<Rightarrow> nat" where
  "issue_attempts rs = length (filter is_issue_request rs)"

definition login_attempts :: "http_request list \<Rightarrow> nat" where
  "login_attempts rs = length (filter (\<lambda>r. \<not> is_issue_request r) rs)"


section \<open>The PKI issuer (package vault)\<close>

text \<open>
  \<open>parseNotAfter\<close> decodes the first PEM block and parses it as a certificate.
  \<open>AppendCertsFromPEM\<close> answers whether it added a certificate to the pool; the pool is the
  list of the PEM entries it took certificates from. The client is a pointer: the issuer
  returned is the issuer with the client as the call left it.
\<close>

definition parseNotAfter :: "library \<Rightarrow> string \<Rightarrow> error + time" where
  "parseNotAfter L certPEM =
     (case pem_Decode L certPEM of
        None \<Rightarrow> Inl (ErrorsNew ''invalid cert PEM'')
      | Some bytes \<Rightarrow>
          (case x509_ParseCertificate L bytes of
             Inl e \<Rightarrow> Inl e
           | Inr cert \<Rightarrow> Inr (cert_NotAfter cert)))"

record Issuer =
  Client :: "Client option"
  PKIPath :: string
  Role :: string
  CommonName :: string
  AltNames :: "string list"
  URISANs :: "string list"
  TTL :: duration
  RequireCA :: bool

definition issue_request :: "library \<Rightarrow> Issuer \<Rightarrow> IssueRequest" where
  "issue_request L i =
     \<lparr>req_CommonName = CommonName i, req_AltNames = AltNames i, req_URISANs = URISANs i,
      req_TTL = (if 0 < TTL i then time_Duration_String L (TTL i) else [])\<rparr>"

text \<open>The loop over \<open>resp.CAChain\<close>: \<open>None\<close> when an entry gives no certificate.\<close>

fun append_chain :: "library \<Rightarrow> cert_pool \<Rightarrow> string list \<Rightarrow> cert_pool option" where
  "append_chain L pool [] = Some pool"
| "append_chain L pool (pem # rest) =
     (if \<not> AppendCertsFromPEM L pem then None else append_chain L (pool @ [pem]) rest)"

definition Issuer_Issue ::
  "library \<Rightarrow> Issuer \<Rightarrow> http_request list \<Rightarrow> (Issuer \<times> http_request list) \<times> (error + Bundle)" where
  "Issuer_Issue L i sent =
     (case Client i of
        None \<Rightarrow> ((i, sent), Inl (ErrorsNew ''vault client required''))
      | Some c \<Rightarrow>
          (case Client_Issue L c sent (PKIPath i) (Role i) (issue_request L i) of
             ((c1, sent1), Inl e) \<Rightarrow> ((i\<lparr>Client := Some c1\<rparr>, sent1), Inl e)
           | ((c1, sent1), Inr resp) \<Rightarrow>
               ((i\<lparr>Client := Some c1\<rparr>, sent1),
                (case tls_X509KeyPair L (resp_Certificate resp) (resp_PrivateKey resp) of
                   Inl e \<Rightarrow> Inl e
                 | Inr cert \<Rightarrow>
                     (case append_chain L [] (CAChain resp) of
                        None \<Rightarrow> Inl (ErrorsNew ''vault ca_chain contained invalid PEM'')
                      | Some pool \<Rightarrow>
                          (if length (CAChain resp) = 0 \<and> IssuingCA resp \<noteq> []
                              \<and> \<not> AppendCertsFromPEM L (IssuingCA resp)
                           then Inl (ErrorsNew ''vault issuing_ca contained invalid PEM'')
                           else
                             (let pool2 = (if length (CAChain resp) = 0 \<and> IssuingCA resp \<noteq> []
                                           then pool @ [IssuingCA resp] else pool)
                              in if RequireCA i \<and> length (CAChain resp) = 0 \<and> IssuingCA resp = []
                                 then Inl (ErrorsNew ''vault issue response missing ca_chain/issuing_ca'')
                                 else (case parseNotAfter L (resp_Certificate resp) of
                                         Inl e \<Rightarrow> Inl e
                                       | Inr notAfter \<Rightarrow>
                                           Inr \<lparr>Cert = Some cert, CA = pool2,
                                                NotAfter = notAfter\<rparr>))))))))"


text \<open>
  The trust material of a response as the specification words it: every entry of the chain,
  or, only when the chain is empty, the issuing CA, or nothing.
\<close>

definition trust_material :: "IssueResponse \<Rightarrow> string list" where
  "trust_material resp =
     (if CAChain resp \<noteq> [] then CAChain resp
      else if IssuingCA resp \<noteq> [] then [IssuingCA resp]
      else [])"


section \<open>Example inputs\<close>

text \<open>Concrete inputs on which the theorems below are instantiated.\<close>

definition ex_bundle :: Bundle where
  "ex_bundle = \<lparr>Cert = None, CA = [], NotAfter = 90 * Second\<rparr>"

definition ex_issuer :: issuer where
  "ex_issuer k =
     (if k = 1 then (Some ex_bundle, None) else (None, Some (ErrorsNew ''backend down'')))"

definition ex_platform :: platform where
  "ex_platform =
     \<lparr>time_Now = (\<lambda>k. 0),
      x509_ParseCertificate = (\<lambda>der. Inl (LibraryError ''x509: malformed certificate''))\<rparr>"

definition ex_world :: world where
  "ex_world = \<lparr>issue_calls = 0, clock_calls = 0\<rparr>"


definition static_issuer :: "Bundle \<Rightarrow> issuer" where
  "static_issuer b k = (Some b, None)"

definition short_bundle :: Bundle where
  "short_bundle = \<lparr>Cert = None, CA = [], NotAfter = 1\<rparr>"

definition long_bundle :: Bundle where
  "long_bundle = \<lparr>Cert = None, CA = [], NotAfter = 2 ^ 62\<rparr>"


definition failing_issuer :: issuer where
  "failing_issuer k = (None, Some (ErrorsNew ''backend down''))"

definition panicking_hook_options :: Options where
  "panicking_hook_options = zero_options\<lparr>OnError := Some (\<lambda>ctx e. HookPanics ''boom'')\<rparr>"

definition quiet_hook_options :: Options where
  "quiet_hook_options =
     zero_options\<lparr>OnRotate := Some (\<lambda>ctx info. HookBlocks), OnError := Some (\<lambda>ctx e. HookReturns)\<rparr>"


definition api_uri :: url where
  "api_uri = \<lparr>Scheme = ''spiffe'', url_String = ''spiffe://corp/prod/stack/payments/service/api''\<rparr>"

definition https_uri :: url where
  "https_uri = \<lparr>Scheme = ''https'', url_String = ''https://corp/prod/stack/payments/service/api''\<rparr>"

definition leaf_with :: "url list \<Rightarrow> x509_certificate" where
  "leaf_with us =
     \<lparr>Subject_CommonName = ''peer'', SerialNumber = Some 1, DNSNames = [],
      URIs = map Some us, cert_NotAfter = 0\<rparr>"

definition spiffe_uri :: "string \<Rightarrow> url" where
  "spiffe_uri s = \<lparr>Scheme = ''spiffe'', url_String = s\<rparr>"

definition exact_rule :: "string \<Rightarrow> Authorizer" where
  "exact_rule r = \<lparr>AllowedExact = [r], AllowedPrefixes = [], AllowedGlobs = []\<rparr>"

definition prefix_rule :: "string \<Rightarrow> Authorizer" where
  "prefix_rule r = \<lparr>AllowedExact = [], AllowedPrefixes = [r], AllowedGlobs = []\<rparr>"

definition glob_rule :: "string \<Rightarrow> Authorizer" where
  "glob_rule r = \<lparr>AllowedExact = [], AllowedPrefixes = [], AllowedGlobs = [r]\<rparr>"

definition exact_authorizer :: Authorizer where
  "exact_authorizer =
     \<lparr>AllowedExact = [''spiffe://corp/prod/stack/payments/service/api''],
      AllowedPrefixes = [], AllowedGlobs = []\<rparr>"

definition prefix_authorizer :: Authorizer where
  "prefix_authorizer =
     \<lparr>AllowedExact = [], AllowedPrefixes = [''spiffe://corp/prod/stack/payments/''],
      AllowedGlobs = []\<rparr>"

definition glob_authorizer :: Authorizer where
  "glob_authorizer =
     \<lparr>AllowedExact = [], AllowedPrefixes = [],
      AllowedGlobs = [''spiffe://corp/prod/stack/+/service/+'']\<rparr>"

definition https_authorizer :: Authorizer where
  "https_authorizer =
     \<lparr>AllowedExact = [], AllowedPrefixes = [''https://corp/prod/stack/''], AllowedGlobs = []\<rparr>"


text \<open>
  A library and a backend for the examples: the backend answers a login with the given body
  (status 500 when there is none) and an issuance with the given body when the token is
  \<open>good\<close>, with status 403 otherwise; the decoders read the bodies the backend sends.
\<close>

definition test_library ::
  "(http_request list \<Rightarrow> http_request \<Rightarrow> error + http_response) \<Rightarrow> library" where
  "test_library transport =
     \<lparr>time_Now = (\<lambda>k. 0),
      x509_ParseCertificate =
        (\<lambda>der. if der = ''LEAF DER''
               then Inr \<lparr>Subject_CommonName = ''Test Leaf'', SerialNumber = Some 2, DNSNames = [],
                         URIs = [], cert_NotAfter = 3600 * Second\<rparr>
               else Inl (LibraryError ''x509: malformed certificate'')),
      http_Do = transport,
      http_NewRequest = (\<lambda>m u. None),
      path_Join = (\<lambda>parts. foldr (\<lambda>p acc. if acc = [] then p else p @ ''/'' @ acc) parts []),
      strings_TrimSpace =
        (\<lambda>s. rev (dropWhile (\<lambda>x. x = CHR '' '') (rev (dropWhile (\<lambda>x. x = CHR '' '') s)))),
      json_Decode_login =
        (\<lambda>body. if take 6 body = ''token='' then Inr (drop 6 body)
                else Inl (LibraryError ''invalid character'')),
      json_Decode_issue =
        (\<lambda>body.
           if body = ''leaf+key''
           then Inr \<lparr>resp_Certificate = ''LEAF PEM'', resp_PrivateKey = ''KEY PEM'',
                     CAChain = [], IssuingCA = []\<rparr>
           else if body = ''leaf+key+issuing_ca''
           then Inr \<lparr>resp_Certificate = ''LEAF PEM'', resp_PrivateKey = ''KEY PEM'',
                     CAChain = [], IssuingCA = ''CA PEM''\<rparr>
           else if body = ''leaf+key+ca_chain''
           then Inr \<lparr>resp_Certificate = ''LEAF PEM'', resp_PrivateKey = ''KEY PEM'',
                     CAChain = [''CA PEM'', ''ROOT PEM''], IssuingCA = ''OTHER CA PEM''\<rparr>
           else if body = ''leaf+key+bad_issuing_ca''
           then Inr \<lparr>resp_Certificate = ''LEAF PEM'', resp_PrivateKey = ''KEY PEM'',
                     CAChain = [], IssuingCA = ''not pem''\<rparr>
           else if body = ''leaf+key+bad_ca_chain''
           then Inr \<lparr>resp_Certificate = ''LEAF PEM'', resp_PrivateKey = ''KEY PEM'',
                     CAChain = [''CA PEM'', ''not pem''], IssuingCA = ''CA PEM''\<rparr>
           else Inl (LibraryError ''invalid character'')),
      time_Duration_String = (\<lambda>d. show_int (d div Second) @ ''s''),
      tls_X509KeyPair =
        (\<lambda>cert key. if cert = ''LEAF PEM'' \<and> key = ''KEY PEM''
                    then Inr \<lparr>Certificate = [''LEAF DER''], Leaf = None\<rparr>
                    else Inl (LibraryError ''tls: failed to find any PEM data'')),
      AppendCertsFromPEM = (\<lambda>pem. pem = ''CA PEM'' \<or> pem = ''ROOT PEM'' \<or> pem = ''OTHER CA PEM''),
      pem_Decode = (\<lambda>pem. if pem = ''LEAF PEM'' then Some ''LEAF DER'' else None)\<rparr>"

definition test_server ::
  "string \<Rightarrow> string \<Rightarrow> http_request list \<Rightarrow> http_request \<Rightarrow> error + http_response" where
  "test_server login_body issue_body sent req =
     (case req_body req of
        LoginPayload r s \<Rightarrow>
          (if login_body = [] then Inr \<lparr>StatusCode = 500, Body = ''login down''\<rparr>
           else Inr \<lparr>StatusCode = 200, Body = login_body\<rparr>)
      | IssuePayload q \<Rightarrow>
          (if req_token req = Some ''good'' then Inr \<lparr>StatusCode = 200, Body = issue_body\<rparr>
           else Inr \<lparr>StatusCode = 403, Body = ''permission denied''\<rparr>))"

text \<open>A backend that answers every issuance with the given status and body.\<close>

definition status_server ::
  "int \<Rightarrow> string \<Rightarrow> http_request list \<Rightarrow> http_request \<Rightarrow> error + http_response" where
  "status_server code body sent req =
     (case req_body req of
        LoginPayload r s \<Rightarrow> Inr \<lparr>StatusCode = 200, Body = ''token=good''\<rparr>
      | IssuePayload q \<Rightarrow> Inr \<lparr>StatusCode = code, Body = body\<rparr>)"

definition approle_client :: "string \<Rightarrow> Client" where
  "approle_client tok =
     \<lparr>Addr = ''http://vault.test'', Namespace = [], Token = tok, RoleID = ''role-id'',
      SecretID = ''secret-id'', AuthPath = []\<rparr>"

definition token_client :: "string \<Rightarrow> Client" where
  "token_client tok =
     \<lparr>Addr = ''http://vault.test'', Namespace = [], Token = tok, RoleID = [],
      SecretID = [], AuthPath = []\<rparr>"

definition login_request :: http_request where
  "login_request =
     \<lparr>req_method = ''POST'', req_url = ''http://vault.test/v1/auth/approle/login'',
      req_namespace = None, req_token = None,
      req_body = LoginPayload ''role-id'' ''secret-id''\<rparr>"


definition svc_request :: IssueRequest where
  "svc_request = \<lparr>req_CommonName = ''svc'', req_AltNames = [], req_URISANs = [], req_TTL = []\<rparr>"

definition issue_http_request :: "string \<Rightarrow> http_request" where
  "issue_http_request tok =
     \<lparr>req_method = ''POST'', req_url = ''http://vault.test/v1/pki/issue/role'',
      req_namespace = None, req_token = Some tok, req_body = IssuePayload svc_request\<rparr>"

definition leaf_key_response :: IssueResponse where
  "leaf_key_response =
     \<lparr>resp_Certificate = ''LEAF PEM'', resp_PrivateKey = ''KEY PEM'', CAChain = [], IssuingCA = []\<rparr>"


definition test_issuer :: "duration \<Rightarrow> bool \<Rightarrow> Issuer" where
  "test_issuer ttl requireCA =
     \<lparr>Client = Some (token_client ''good''), PKIPath = ''pki'', Role = ''role'',
      CommonName = ''svc'', AltNames = [],
      URISANs = [''spiffe://corp/prod/stack/payments/service/api''],
      TTL = ttl, RequireCA = requireCA\<rparr>"

definition test_leaf :: tls_certificate where
  "test_leaf = \<lparr>Certificate = [''LEAF DER''], Leaf = None\<rparr>"

definition test_bundle :: "string list \<Rightarrow> Bundle" where
  "test_bundle pool = \<lparr>Cert = Some test_leaf, CA = pool, NotAfter = 3600 * Second\<rparr>"


section \<open>Properties of the rotation manager\<close>

lemma NewWithOptions_opts:
  "opts (NewWithOptions P iss o0) =
     o0\<lparr>MinRefresh := (if MinRefresh o0 \<le> 0 then 30 * Second else MinRefresh o0),
        ErrorBackoff := (if ErrorBackoff o0 \<le> 0 then 15 * Second else ErrorBackoff o0),
        HookTimeout := (if HookTimeout o0 \<le> 0 then 2 * Second else HookTimeout o0),
        Now := (if Now o0 = None then Some (time_Now P) else Now o0)\<rparr>"
  by (simp add: NewWithOptions_def Let_def)

lemma NewWithOptions_issuer_of: "issuer_of (NewWithOptions P iss o0) = iss"
  by (simp add: NewWithOptions_def Let_def)

lemma NewWithOptions_curr: "curr (NewWithOptions P iss o0) = None"
  by (simp add: NewWithOptions_def Let_def)

lemma refresh_curr:
  "curr (fst (fst (refresh m w))) =
     (case snd (issuer_of m (issue_calls w)) of
        Some e \<Rightarrow> curr m
      | None \<Rightarrow> Some (fst (issuer_of m (issue_calls w))))"
  by (simp add: refresh_def Let_def split: option.splits)

lemma refresh_issuer_of: "issuer_of (fst (fst (refresh m w))) = issuer_of m"
  by (simp add: refresh_def Let_def split: option.splits)

lemma refresh_opts: "opts (fst (fst (refresh m w))) = opts m"
  by (simp add: refresh_def Let_def split: option.splits)

lemma refresh_issue_calls: "issue_calls (snd (fst (refresh m w))) = Suc (issue_calls w)"
  by (simp add: refresh_def Let_def split: option.splits)

lemma refreshes_issuer_of: "issuer_of (fst (refreshes n s)) = issuer_of (fst s)"
  by (induction n arbitrary: s) (simp_all add: refresh_issuer_of)

lemma refreshes_issue_calls: "issue_calls (snd (refreshes n s)) = issue_calls (snd s) + n"
  by (induction n arbitrary: s) (simp_all add: refresh_issue_calls)

lemma refreshes_all_fail:
  "(\<forall>k<n. snd (issuer_of (fst s) (issue_calls (snd s) + k)) \<noteq> None) \<Longrightarrow>
   curr (fst (refreshes n s)) = curr (fst s)"
proof (induction n arbitrary: s)
  case 0
  then show ?case by simp
next
  case (Suc n)
  let ?s1 = "fst (refresh (fst s) (snd s))"
  from Suc.prems have first: "snd (issuer_of (fst s) (issue_calls (snd s))) \<noteq> None"
    by (metis add.right_neutral zero_less_Suc)
  have "\<forall>k<n. snd (issuer_of (fst ?s1) (issue_calls (snd ?s1) + k)) \<noteq> None"
  proof (intro allI impI)
    fix k assume "k < n"
    then have "Suc k < Suc n" by simp
    with Suc.prems have "snd (issuer_of (fst s) (issue_calls (snd s) + Suc k)) \<noteq> None"
      by blast
    then show "snd (issuer_of (fst ?s1) (issue_calls (snd ?s1) + k)) \<noteq> None"
      by (simp add: refresh_issuer_of refresh_issue_calls)
  qed
  then have "curr (fst (refreshes n ?s1)) = curr (fst ?s1)"
    by (rule Suc.IH)
  also have "\<dots> = curr (fst s)"
    using first by (auto simp: refresh_curr)
  finally show ?case by simp
qed

lemma refreshes_last_success:
  "k < n \<Longrightarrow> snd (issuer_of (fst s) (issue_calls (snd s) + k)) = None \<Longrightarrow>
   (\<forall>j. k < j \<and> j < n \<longrightarrow> snd (issuer_of (fst s) (issue_calls (snd s) + j)) \<noteq> None) \<Longrightarrow>
   curr (fst (refreshes n s)) = Some (fst (issuer_of (fst s) (issue_calls (snd s) + k)))"
proof (induction n arbitrary: s k)
  case 0
  then show ?case by simp
next
  case (Suc n)
  let ?s1 = "fst (refresh (fst s) (snd s))"
  show ?case
  proof (cases k)
    case 0
    have "\<forall>j<n. snd (issuer_of (fst ?s1) (issue_calls (snd ?s1) + j)) \<noteq> None"
    proof (intro allI impI)
      fix j assume "j < n"
      then have "k < Suc j \<and> Suc j < Suc n" using 0 by simp
      with Suc.prems(3) have "snd (issuer_of (fst s) (issue_calls (snd s) + Suc j)) \<noteq> None"
        by blast
      then show "snd (issuer_of (fst ?s1) (issue_calls (snd ?s1) + j)) \<noteq> None"
        by (simp add: refresh_issuer_of refresh_issue_calls)
    qed
    then have "curr (fst (refreshes n ?s1)) = curr (fst ?s1)"
      by (rule refreshes_all_fail)
    also have "\<dots> = Some (fst (issuer_of (fst s) (issue_calls (snd s))))"
      using Suc.prems(2) 0 by (simp add: refresh_curr)
    finally show ?thesis using 0 by simp
  next
    case (Suc k')
    have a: "k' < n" using Suc Suc.prems(1) by simp
    have b: "snd (issuer_of (fst ?s1) (issue_calls (snd ?s1) + k')) = None"
      using Suc.prems(2) Suc by (simp add: refresh_issuer_of refresh_issue_calls)
    have c: "\<forall>j. k' < j \<and> j < n \<longrightarrow> snd (issuer_of (fst ?s1) (issue_calls (snd ?s1) + j)) \<noteq> None"
    proof (intro allI impI)
      fix j assume "k' < j \<and> j < n"
      then have "k < Suc j \<and> Suc j < Suc n" using Suc by simp
      with Suc.prems(3) have "snd (issuer_of (fst s) (issue_calls (snd s) + Suc j)) \<noteq> None"
        by blast
      then show "snd (issuer_of (fst ?s1) (issue_calls (snd ?s1) + j)) \<noteq> None"
        by (simp add: refresh_issuer_of refresh_issue_calls)
    qed
    have "curr (fst (refreshes n ?s1)) = Some (fst (issuer_of (fst ?s1) (issue_calls (snd ?s1) + k')))"
      using Suc.IH [OF a b c] .
    then show ?thesis using Suc by (simp add: refresh_issuer_of refresh_issue_calls)
  qed
qed

lemma refreshes_ready: "curr (fst s) \<noteq> None \<Longrightarrow> curr (fst (refreshes n s)) \<noteq> None"
proof (induction n arbitrary: s)
  case 0
  then show ?case by simp
next
  case (Suc n)
  have "curr (fst (fst (refresh (fst s) (snd s)))) \<noteq> None"
    using Suc.prems by (simp add: refresh_curr split: option.splits)
  then show ?case using Suc.IH by simp
qed

lemma refreshes_add: "refreshes (a + b) s = refreshes b (refreshes a s)"
  by (induction a arbitrary: s) simp_all

lemma refreshes_ready_after:
  assumes "k < n" and "snd (issuer_of (fst s) (issue_calls (snd s) + k)) = None"
  shows "curr (fst (refreshes n s)) \<noteq> None"
proof -
  let ?t = "refreshes k s"
  have "snd (issuer_of (fst ?t) (issue_calls (snd ?t))) = None"
    using assms(2) by (simp add: refreshes_issuer_of refreshes_issue_calls)
  then have "curr (fst (refreshes (Suc 0) ?t)) \<noteq> None"
    by (simp add: refresh_curr)
  then have "curr (fst (refreshes (n - Suc k) (refreshes (Suc 0) ?t))) \<noteq> None"
    by (rule refreshes_ready)
  moreover have "refreshes (n - Suc k) (refreshes (Suc 0) ?t) = refreshes n s"
  proof -
    have "n = k + (Suc 0 + (n - Suc k))" using assms(1) by simp
    then have "refreshes n s = refreshes (k + (Suc 0 + (n - Suc k))) s" by simp
    also have "\<dots> = refreshes (n - Suc k) (refreshes (Suc 0) ?t)"
      by (simp only: refreshes_add)
    finally show ?thesis by simp
  qed
  ultimately show ?thesis by simp
qed


text \<open>
  Claim C1. Before any refresh whose \<open>Issue\<close> call succeeded, \<open>Current\<close> fails with
  \<open>ErrNotReady\<close> (first conjunct, and last conjunct for a manager just made). Once one of
  the refresh attempts made so far succeeded, \<open>Current\<close> returns no error, whatever the
  attempts after it returned (second conjunct), and what it returns is the bundle of the last
  attempt that succeeded (third conjunct). A refresh whose \<open>Issue\<close> call fails leaves the
  stored bundle, and so the answer of \<open>Current\<close>, as it was (fourth conjunct). The attempts
  are the \<open>n\<close> calls of \<open>refresh\<close> made from the state \<open>(m, w)\<close>; the \<open>k\<close>-th of them gets the
  result \<open>issuer_of m (issue_calls w + k)\<close> of the issuer.
\<close>

theorem Current_state_machine:
  "(curr m = None \<and> (\<forall>k<n. snd (issuer_of m (issue_calls w + k)) \<noteq> None)
      \<longrightarrow> Current (fst (refreshes n (m, w))) = (None, Some ErrNotReady))
   \<and> (\<forall>k<n. snd (issuer_of m (issue_calls w + k)) = None
      \<longrightarrow> snd (Current (fst (refreshes n (m, w)))) = None)
   \<and> (\<forall>k<n. snd (issuer_of m (issue_calls w + k)) = None
        \<and> (\<forall>j. k < j \<and> j < n \<longrightarrow> snd (issuer_of m (issue_calls w + j)) \<noteq> None)
      \<longrightarrow> Current (fst (refreshes n (m, w))) = (fst (issuer_of m (issue_calls w + k)), None))
   \<and> (snd (issuer_of m (issue_calls w)) \<noteq> None
      \<longrightarrow> curr (fst (fst (refresh m w))) = curr m
          \<and> Current (fst (fst (refresh m w))) = Current m)
   \<and> Current (NewWithOptions P iss o0) = (None, Some ErrNotReady)"
proof (intro conjI impI allI)
  assume a: "curr m = None \<and> (\<forall>k<n. snd (issuer_of m (issue_calls w + k)) \<noteq> None)"
  then have "curr (fst (refreshes n (m, w))) = curr (fst (m, w))"
    by (intro refreshes_all_fail) simp
  with a show "Current (fst (refreshes n (m, w))) = (None, Some ErrNotReady)"
    by (simp add: Current_def)
next
  fix k assume "k < n" and "snd (issuer_of m (issue_calls w + k)) = None"
  then have "curr (fst (refreshes n (m, w))) \<noteq> None"
    using refreshes_ready_after [of k n "(m, w)"] by simp
  then show "snd (Current (fst (refreshes n (m, w)))) = None"
    by (auto simp: Current_def)
next
  fix k
  assume "k < n"
    and "snd (issuer_of m (issue_calls w + k)) = None
         \<and> (\<forall>j. k < j \<and> j < n \<longrightarrow> snd (issuer_of m (issue_calls w + j)) \<noteq> None)"
  then have "curr (fst (refreshes n (m, w))) = Some (fst (issuer_of m (issue_calls w + k)))"
    using refreshes_last_success [of k n "(m, w)"] by simp
  then show "Current (fst (refreshes n (m, w))) = (fst (issuer_of m (issue_calls w + k)), None)"
    by (simp add: Current_def)
next
  assume "snd (issuer_of m (issue_calls w)) \<noteq> None"
  then show "curr (fst (fst (refresh m w))) = curr m"
    by (auto simp: refresh_curr)
  then show "Current (fst (fst (refresh m w))) = Current m"
    by (simp add: Current_def)
next
  show "Current (NewWithOptions P iss o0) = (None, Some ErrNotReady)"
    by (simp add: Current_def NewWithOptions_curr)
qed

theorem Current_state_machine_witness:
  "Current (New ex_platform ex_issuer) = (None, Some ErrNotReady)
   \<and> Current (fst (refreshes 1 (New ex_platform ex_issuer, ex_world))) = (None, Some ErrNotReady)
   \<and> Current (fst (refreshes 2 (New ex_platform ex_issuer, ex_world))) = (Some ex_bundle, None)
   \<and> Current (fst (refreshes 5 (New ex_platform ex_issuer, ex_world))) = (Some ex_bundle, None)"
proof -
  let ?m = "New ex_platform ex_issuer"
  have iss: "issuer_of ?m = ex_issuer" and cur: "curr ?m = None"
    by (simp_all add: New_def NewWithOptions_issuer_of NewWithOptions_curr)
  have c0: "issue_calls ex_world = 0" by (simp add: ex_world_def)
  have e1: "snd (ex_issuer 1) = None" "fst (ex_issuer 1) = Some ex_bundle"
    by (simp_all add: ex_issuer_def)
  have en: "\<And>j. j \<noteq> 1 \<Longrightarrow> snd (ex_issuer j) \<noteq> None"
    by (simp add: ex_issuer_def)
  note T = Current_state_machine [of ?m _ ex_world ex_platform ex_issuer zero_options]
  have "Current ?m = (None, Some ErrNotReady)"
    using T [of 0] by (simp add: New_def)
  moreover have "Current (fst (refreshes 1 (?m, ex_world))) = (None, Some ErrNotReady)"
    using T [of 1] by (simp add: iss cur c0 en)
  moreover have "Current (fst (refreshes 2 (?m, ex_world))) = (Some ex_bundle, None)"
  proof -
    have "(1::nat) < 2 \<and> snd (issuer_of ?m (issue_calls ex_world + 1)) = None
        \<and> (\<forall>j. 1 < j \<and> j < (2::nat) \<longrightarrow> snd (issuer_of ?m (issue_calls ex_world + j)) \<noteq> None)"
      by (auto simp: iss c0 ex_issuer_def)
    then show ?thesis using T [of 2] by (metis c0 e1(2) iss add_0)
  qed
  moreover have "Current (fst (refreshes 5 (?m, ex_world))) = (Some ex_bundle, None)"
  proof -
    have "(1::nat) < 5 \<and> snd (issuer_of ?m (issue_calls ex_world + 1)) = None
        \<and> (\<forall>j. 1 < j \<and> j < (5::nat) \<longrightarrow> snd (issuer_of ?m (issue_calls ex_world + j)) \<noteq> None)"
      by (auto simp: iss c0 ex_issuer_def)
    then show ?thesis using T [of 5] by (metis c0 e1(2) iss add_0)
  qed
  ultimately show ?thesis by blast
qed
text \<open>
  Claim C10. Whatever the options, the manager \<open>NewWithOptions\<close> makes has positive
  intervals and a clock: a \<open>MinRefresh\<close>, \<open>ErrorBackoff\<close> or \<open>HookTimeout\<close> that is zero or
  negative is replaced by 30, 15 and 2 seconds, a nil \<open>Now\<close> by the real-time clock, and
  every other value is kept. The zero options give exactly these defaults.
\<close>

theorem NewWithOptions_defaults:
  "0 < MinRefresh (opts (NewWithOptions P iss o0))
   \<and> 0 < ErrorBackoff (opts (NewWithOptions P iss o0))
   \<and> 0 < HookTimeout (opts (NewWithOptions P iss o0))
   \<and> Now (opts (NewWithOptions P iss o0)) \<noteq> None
   \<and> MinRefresh (opts (NewWithOptions P iss o0)) =
        (if MinRefresh o0 \<le> 0 then 30 * Second else MinRefresh o0)
   \<and> ErrorBackoff (opts (NewWithOptions P iss o0)) =
        (if ErrorBackoff o0 \<le> 0 then 15 * Second else ErrorBackoff o0)
   \<and> HookTimeout (opts (NewWithOptions P iss o0)) =
        (if HookTimeout o0 \<le> 0 then 2 * Second else HookTimeout o0)
   \<and> Now (opts (NewWithOptions P iss o0)) =
        (if Now o0 = None then Some (time_Now P) else Now o0)
   \<and> OnRotate (opts (NewWithOptions P iss o0)) = OnRotate o0
   \<and> OnError (opts (NewWithOptions P iss o0)) = OnError o0
   \<and> issuer_of (NewWithOptions P iss o0) = iss
   \<and> opts (New P iss) =
        \<lparr>MinRefresh = 30000000000, ErrorBackoff = 15000000000, HookTimeout = 2000000000,
         OnRotate = None, OnError = None, Now = Some (time_Now P)\<rparr>"
  by (simp add: NewWithOptions_opts NewWithOptions_issuer_of New_def zero_options_def Second_def)

lemma int64_id: "- (2 ^ 63) \<le> x \<Longrightarrow> x < 2 ^ 63 \<Longrightarrow> int64 x = x"
  by (simp add: int64_def)

lemma go_div_3: "go_div a 3 = (if 0 \<le> a then a div 3 else - ((- a) div 3))"
  by (simp add: go_div_def sgn_if)

lemma go_div_3_near: "\<bar>3 * go_div a 3 - a\<bar> < 3"
  unfolding go_div_3 by (cases "0 \<le> a"; simp; presburger)

lemma go_div_3_exact: "3 dvd a \<Longrightarrow> 3 * go_div a 3 = a"
  unfolding go_div_3 by (cases "0 \<le> a"; simp; presburger)

lemma go_div_3_bound: "min 0 a \<le> go_div a 3 \<and> go_div a 3 \<le> max 0 a"
  unfolding go_div_3 by (cases "0 \<le> a"; simp; presburger)

lemma refresh_success:
  assumes "snd (issuer_of m (issue_calls w)) = None"
    and "fst (issuer_of m (issue_calls w)) = Some b"
    and "Now (opts m) = Some clk"
  shows "refresh m w =
     ((m\<lparr>curr := Some (Some b)\<rparr>,
       w\<lparr>issue_calls := Suc (issue_calls w), clock_calls := Suc (clock_calls w)\<rparr>),
      Returns (Some b,
        Time_Add (clk (clock_calls w))
          (dur_div (dur_mul (Time_Sub (NotAfter b) (clk (clock_calls w))) 2) 3),
        None))"
  using assms by (simp add: refresh_def Let_def)

lemma two_thirds_in_range:
  assumes "- (2 ^ 62) \<le> L" and "L < 2 ^ 62"
  shows "dur_div (dur_mul (Time_Sub (t0 + L) t0) 2) 3 = go_div (2 * L) 3"
proof -
  have s: "Time_Sub (t0 + L) t0 = L"
    using assms by (simp add: Time_Sub_def minDuration_def maxDuration_def)
  have m: "dur_mul L 2 = 2 * L"
    using assms by (simp add: dur_mul_def int64_id)
  have "min 0 (2 * L) \<le> go_div (2 * L) 3 \<and> go_div (2 * L) 3 \<le> max 0 (2 * L)"
    by (rule go_div_3_bound)
  then have "- (2 ^ 63) \<le> go_div (2 * L) 3 \<and> go_div (2 * L) 3 < 2 ^ 63"
    using assms by simp linarith
  then have "dur_div (2 * L) 3 = go_div (2 * L) 3"
    by (simp add: dur_div_def int64_id)
  with s m show ?thesis by simp
qed


lemma floor_wait_max: "floor_wait m next now = max (Time_Sub next now) (MinRefresh (opts m))"
  by (simp add: floor_wait_def Let_def max_def)

lemma next_wait_success:
  assumes "Now (opts m) = Some clk"
  shows "snd (next_wait m w next) =
     (case jitter (clk (Suc (clock_calls w))) (floor_wait m next (clk (clock_calls w))) of
        None \<Rightarrow> Panics
      | Some j \<Rightarrow> Returns (dur_add (floor_wait m next (clk (clock_calls w))) j))"
  using assms by (simp add: next_wait_def Let_def split: option.splits)

lemma run_iter_success:
  assumes "refresh m w = ((m1, w1), Returns (bp, next, None))" and "Now (opts m) = Some clk"
  shows "snd (snd (run_iter P m w)) =
     (case jitter (clk (Suc (clock_calls w1))) (floor_wait m1 next (clk (clock_calls w1))) of
        None \<Rightarrow> Panics
      | Some j \<Rightarrow> Returns (dur_add (floor_wait m1 next (clk (clock_calls w1))) j))"
proof -
  have "opts m1 = opts m"
    using refresh_opts [of m w] assms(1) by simp
  then have "Now (opts m1) = Some clk"
    using assms(2) by simp
  then show ?thesis
    using assms(1) by (simp add: run_iter_def Let_def next_wait_success)
qed

lemma New_static:
  "refresh (New ex_platform (static_issuer b)) ex_world =
     ((New ex_platform (static_issuer b)\<lparr>curr := Some (Some b)\<rparr>,
       \<lparr>issue_calls = 1, clock_calls = 1\<rparr>),
      Returns (Some b, Time_Add 0 (dur_div (dur_mul (Time_Sub (NotAfter b) 0) 2) 3), None))"
proof -
  have "Now (opts (New ex_platform (static_issuer b))) = Some (\<lambda>k. 0)"
    by (simp add: New_def NewWithOptions_opts zero_options_def ex_platform_def)
  moreover have "issuer_of (New ex_platform (static_issuer b)) = static_issuer b"
    by (simp add: New_def NewWithOptions_issuer_of)
  ultimately show ?thesis
    using refresh_success [of "New ex_platform (static_issuer b)" ex_world b "\<lambda>k. 0"]
    by (simp add: static_issuer_def ex_world_def)
qed

text \<open>
  Claim C2, as amended. A refresh that succeeds at the instant \<open>t0\<close> (the clock's answer
  inside \<open>refresh\<close>) on a bundle with \<open>NotAfter = t0 + L\<close>, for a lifetime \<open>L\<close> of less than
  \<open>2 ^ 62\<close> nanoseconds in absolute value, returns the next-refresh time
  \<open>t0 + (2 * L) / 3\<close>, with Go's integer division: it is less than a nanosecond away from
  \<open>t0 + (2/3) L\<close>, and is exactly that instant when \<open>L\<close> is a multiple of 3 nanoseconds.
  The wait of the \<open>Run\<close> loop, before the jitter is added, is the greater of
  \<open>next.Sub(now)\<close> and \<open>MinRefresh\<close>, and the loop sleeps for that wait plus the jitter.
\<close>

theorem refresh_two_thirds_and_floor:
  "(snd (issuer_of m (issue_calls w)) = None \<and> fst (issuer_of m (issue_calls w)) = Some b
      \<and> Now (opts m) = Some clk \<and> NotAfter b = clk (clock_calls w) + L
      \<and> - (2 ^ 62) \<le> L \<and> L < 2 ^ 62
    \<longrightarrow> (\<exists>next. snd (refresh m w) = Returns (Some b, next, None)
          \<and> next = clk (clock_calls w) + go_div (2 * L) 3
          \<and> \<bar>3 * (next - clk (clock_calls w)) - 2 * L\<bar> < 3
          \<and> (3 dvd L \<longrightarrow> two_thirds_point (clk (clock_calls w)) L next)))
   \<and> (refresh m w = ((m1, w1), Returns (bp, next', None)) \<and> Now (opts m) = Some clk
    \<longrightarrow> floor_wait m1 next' now = max (Time_Sub next' now) (MinRefresh (opts m))
        \<and> snd (snd (run_iter P m w)) =
            (case jitter (clk (Suc (clock_calls w1))) (floor_wait m1 next' (clk (clock_calls w1))) of
               None \<Rightarrow> Panics
             | Some j \<Rightarrow> Returns (dur_add (floor_wait m1 next' (clk (clock_calls w1))) j)))"
proof (intro conjI impI)
  assume a: "snd (issuer_of m (issue_calls w)) = None \<and> fst (issuer_of m (issue_calls w)) = Some b
      \<and> Now (opts m) = Some clk \<and> NotAfter b = clk (clock_calls w) + L
      \<and> - (2 ^ 62) \<le> L \<and> L < 2 ^ 62"
  let ?t0 = "clk (clock_calls w)"
  let ?next = "?t0 + go_div (2 * L) 3"
  have d: "dur_div (dur_mul (Time_Sub (NotAfter b) ?t0) 2) 3 = go_div (2 * L) 3"
    using a two_thirds_in_range [of L ?t0] by simp
  have r: "snd (refresh m w) = Returns (Some b, ?next, None)"
    using a refresh_success [of m w b clk] two_thirds_in_range [of L ?t0]
    by (simp add: Time_Add_def)
  have n: "\<bar>3 * (?next - ?t0) - 2 * L\<bar> < 3"
    using go_div_3_near [of "2 * L"] by simp
  have e: "3 dvd L \<longrightarrow> two_thirds_point ?t0 L ?next"
    using go_div_3_exact [of "2 * L"] by (simp add: two_thirds_point_def)
  from r n e show "\<exists>next. snd (refresh m w) = Returns (Some b, next, None)
          \<and> next = clk (clock_calls w) + go_div (2 * L) 3
          \<and> \<bar>3 * (next - clk (clock_calls w)) - 2 * L\<bar> < 3
          \<and> (3 dvd L \<longrightarrow> two_thirds_point (clk (clock_calls w)) L next)"
    by blast
next
  assume b: "refresh m w = ((m1, w1), Returns (bp, next', None)) \<and> Now (opts m) = Some clk"
  have "opts m1 = opts m"
    using refresh_opts [of m w] b by simp
  then show "floor_wait m1 next' now = max (Time_Sub next' now) (MinRefresh (opts m))"
    by (simp add: floor_wait_max)
  show "snd (snd (run_iter P m w)) =
            (case jitter (clk (Suc (clock_calls w1))) (floor_wait m1 next' (clk (clock_calls w1))) of
               None \<Rightarrow> Panics
             | Some j \<Rightarrow> Returns (dur_add (floor_wait m1 next' (clk (clock_calls w1))) j))"
    using b by (intro run_iter_success) simp_all
qed

theorem refresh_two_thirds_and_floor_witness:
  "snd (refresh (New ex_platform (static_issuer ex_bundle)) ex_world)
     = Returns (Some ex_bundle, 60 * Second, None)
   \<and> two_thirds_point 0 (90 * Second) (60 * Second)
   \<and> snd (snd (run_iter ex_platform (New ex_platform (static_issuer ex_bundle)) ex_world))
     = Returns (60 * Second)"
proof -
  let ?m = "New ex_platform (static_issuer ex_bundle)"
  let ?clk = "\<lambda>k::nat. 0::int"
  have now: "Now (opts ?m) = Some ?clk"
    by (simp add: New_def NewWithOptions_opts zero_options_def ex_platform_def)
  have iss: "issuer_of ?m = static_issuer ex_bundle"
    by (simp add: New_def NewWithOptions_issuer_of)
  have minr: "MinRefresh (opts ?m) = 30 * Second"
    by (simp add: New_def NewWithOptions_opts zero_options_def)
  have g: "go_div (2 * (90 * Second)) 3 = 60 * Second"
    by (simp add: go_div_def Second_def)
  note T = refresh_two_thirds_and_floor [of ?m ex_world ex_bundle ?clk "90 * Second"
      "?m\<lparr>curr := Some (Some ex_bundle)\<rparr>" "\<lparr>issue_calls = 1, clock_calls = 1\<rparr>"
      "Some ex_bundle" "60 * Second" 0 ex_platform]
  have pre: "snd (issuer_of ?m (issue_calls ex_world)) = None
      \<and> fst (issuer_of ?m (issue_calls ex_world)) = Some ex_bundle
      \<and> Now (opts ?m) = Some ?clk \<and> NotAfter ex_bundle = ?clk (clock_calls ex_world) + 90 * Second
      \<and> - (2 ^ 62) \<le> 90 * Second \<and> 90 * Second < 2 ^ 62"
  proof -
    have "NotAfter ex_bundle = 90 * Second" by (simp add: ex_bundle_def)
    then show ?thesis
      by (simp add: iss now static_issuer_def Second_def)
  qed
  have r: "snd (refresh ?m ex_world) = Returns (Some ex_bundle, 60 * Second, None)"
    using T pre g by auto
  have tt: "two_thirds_point 0 (90 * Second) (60 * Second)"
    using T pre g by (auto simp: Second_def)
  have rr: "refresh ?m ex_world =
      ((?m\<lparr>curr := Some (Some ex_bundle)\<rparr>, \<lparr>issue_calls = 1, clock_calls = 1\<rparr>),
       Returns (Some ex_bundle, 60 * Second, None))"
    using r by (simp add: New_static)
  have fw: "floor_wait (?m\<lparr>curr := Some (Some ex_bundle)\<rparr>) (60 * Second) 0 = 60 * Second"
    by (simp add: floor_wait_def minr Time_Sub_def minDuration_def maxDuration_def Second_def)
  have j: "jitter 0 (60 * Second) = Some 0"
    by (simp add: jitter_def dur_div_def go_div_def go_mod_def int64_def UnixNano_def Second_def)
  have "snd (snd (run_iter ex_platform ?m ex_world)) =
      (case jitter 0 (floor_wait (?m\<lparr>curr := Some (Some ex_bundle)\<rparr>) (60 * Second) 0) of
         None \<Rightarrow> Panics
       | Some j \<Rightarrow>
           Returns (dur_add (floor_wait (?m\<lparr>curr := Some (Some ex_bundle)\<rparr>) (60 * Second) 0) j))"
    using T rr now by blast
  then have "snd (snd (run_iter ex_platform ?m ex_world)) = Returns (dur_add (60 * Second) 0)"
    by (simp only: fw j option.case)
  then have "snd (snd (run_iter ex_platform ?m ex_world)) = Returns (60 * Second)"
    by (simp add: dur_add_def int64_def Second_def)
  with r tt show ?thesis by blast
qed

text \<open>
  The claim as it is worded fails: with a lifetime of one nanosecond the next refresh is at
  \<open>t0\<close> itself, and with a lifetime of \<open>2 ^ 62\<close> nanoseconds the product \<open>ttl * 2\<close> wraps
  around and the next refresh lies before \<open>t0\<close>.
\<close>

theorem refresh_two_thirds_counterexample:
  "snd (refresh (New ex_platform (static_issuer short_bundle)) ex_world)
     = Returns (Some short_bundle, 0, None)
   \<and> NotAfter short_bundle = 0 + 1
   \<and> \<not> two_thirds_point 0 1 0
   \<and> snd (refresh (New ex_platform (static_issuer long_bundle)) ex_world)
     = Returns (Some long_bundle, - 3074457345618258602, None)
   \<and> NotAfter long_bundle = 0 + 2 ^ 62
   \<and> \<not> two_thirds_point 0 (2 ^ 62) (- 3074457345618258602)"
  by (simp add: New_static short_bundle_def long_bundle_def two_thirds_point_def Time_Add_def
      Time_Sub_def dur_div_def dur_mul_def int64_def go_div_def minDuration_def maxDuration_def)

lemma sleeps_append: "sleeps (xs @ ys) = sleeps xs @ sleeps ys"
  by (induction xs rule: sleeps.induct) simp_all

lemma dispatched_append: "dispatched (xs @ ys) = dispatched xs @ dispatched ys"
  by (induction xs rule: dispatched.induct) simp_all

lemma unrecovered_append: "unrecovered (xs @ ys) = unrecovered xs @ unrecovered ys"
  by (induction xs) (simp_all split: goroutine_exit.splits)

lemma sleeps_dispatch: "sleeps (dispatch t) = []"
  by (simp add: dispatch_def split: option.splits)

lemma refresh_differ:
  assumes "differ_in_hooks m m'"
  shows "differ_in_hooks (fst (fst (refresh m w))) (fst (fst (refresh m' w)))
     \<and> snd (fst (refresh m w)) = snd (fst (refresh m' w))
     \<and> snd (refresh m w) = snd (refresh m' w)"
  using assms
  by (simp add: differ_in_hooks_def refresh_def Let_def split: option.splits)


lemma onRotate_ctx:
  "onRotate P m bp = Some t \<Longrightarrow> task_ctx t = WithTimeout Background (HookTimeout (opts m))"
  by (auto simp: onRotate_def Let_def split: option.splits)

lemma onError_ctx:
  "onError m e = Some t \<Longrightarrow> task_ctx t = WithTimeout Background (HookTimeout (opts m))"
  by (auto simp: onError_def Let_def split: option.splits)

lemma onRotate_no_panic:
  "hooks_never_panic m \<Longrightarrow> onRotate P m bp = Some t \<Longrightarrow> unrecovered [t] = []"
  by (auto simp: onRotate_def hooks_never_panic_def hook_goroutine_def Let_def
      split: option.splits hook_outcome.splits)

lemma onError_no_panic:
  "hooks_never_panic m \<Longrightarrow> onError m e = Some t \<Longrightarrow> unrecovered [t] = []"
  by (auto simp: onError_def hooks_never_panic_def hook_goroutine_def Let_def
      split: option.splits hook_outcome.splits)

lemma hooks_never_panic_opts: "opts m1 = opts m \<Longrightarrow> hooks_never_panic m1 = hooks_never_panic m"
  by (simp add: hooks_never_panic_def)

lemma run_iter_unfold:
  "refresh m w = ((m1, w1), r) \<Longrightarrow>
   run_iter P m w =
     (case r of
        Panics \<Rightarrow> ((m1, w1), [], Panics)
      | Returns x \<Rightarrow>
          (case snd (snd x) of
             Some e \<Rightarrow> ((m1, w1), dispatch (onError m1 (Some e)), Returns (ErrorBackoff (opts m1)))
           | None \<Rightarrow>
               ((m1, fst (next_wait m1 w1 (fst (snd x)))), dispatch (onRotate P m1 (fst x)),
                snd (next_wait m1 w1 (fst (snd x))))))"
  by (simp add: run_iter_def Let_def split: outcome.splits option.splits prod.splits)

lemma floor_wait_differ: "differ_in_hooks m m' \<Longrightarrow> floor_wait m a b = floor_wait m' a b"
  by (simp add: differ_in_hooks_def floor_wait_def Let_def)

lemma next_wait_differ: "differ_in_hooks m m' \<Longrightarrow> next_wait m w n = next_wait m' w n"
proof -
  assume d: "differ_in_hooks m m'"
  then have "Now (opts m) = Now (opts m')" by (simp add: differ_in_hooks_def)
  then show ?thesis
    by (simp only: next_wait_def floor_wait_differ [OF d])
qed

lemma run_iter_opts: "opts (fst (fst (run_iter P m w))) = opts m"
proof -
  obtain m1 w1 r where rf: "refresh m w = ((m1, w1), r)"
    by (metis surj_pair)
  then have "opts m1 = opts m" using refresh_opts [of m w] by simp
  then show ?thesis
    by (simp add: run_iter_unfold [OF rf] split: outcome.splits option.splits)
qed

lemma run_iter_sleeps: "sleeps (fst (snd (run_iter P m w))) = []"
proof -
  obtain m1 w1 r where rf: "refresh m w = ((m1, w1), r)"
    by (metis surj_pair)
  show ?thesis
    by (simp add: run_iter_unfold [OF rf] sleeps_dispatch split: outcome.splits option.splits)
qed

lemma dispatched_dispatch: "dispatched (dispatch x) = (case x of None \<Rightarrow> [] | Some t \<Rightarrow> [t])"
  by (simp add: dispatch_def split: option.splits)

lemma run_iter_ctx:
  assumes "t \<in> set (dispatched (fst (snd (run_iter P m w))))"
  shows "task_ctx t = WithTimeout Background (HookTimeout (opts m))"
proof -
  obtain m1 w1 r where rf: "refresh m w = ((m1, w1), r)"
    by (metis surj_pair)
  then have o: "opts m1 = opts m" using refresh_opts [of m w] by simp
  from assms have "(\<exists>bp. onRotate P m1 bp = Some t) \<or> (\<exists>e. onError m1 e = Some t)"
    by (auto simp: run_iter_unfold [OF rf] dispatched_dispatch split: outcome.splits option.splits)
  then show ?thesis
    using onRotate_ctx [of P m1 _ t] onError_ctx [of m1 _ t] o by auto
qed

lemma run_iter_no_panic:
  assumes "hooks_never_panic m"
  shows "unrecovered (dispatched (fst (snd (run_iter P m w)))) = []"
proof -
  obtain m1 w1 r where rf: "refresh m w = ((m1, w1), r)"
    by (metis surj_pair)
  then have "opts m1 = opts m" using refresh_opts [of m w] by simp
  then have n: "hooks_never_panic m1" using assms by (simp add: hooks_never_panic_def)
  have a: "unrecovered (dispatched (dispatch (onRotate P m1 bp))) = []" for bp
  proof (cases "onRotate P m1 bp")
    case None
    then show ?thesis by (simp add: dispatch_def)
  next
    case (Some t)
    from onRotate_no_panic [OF n Some] show ?thesis
      by (simp only: Some dispatch_def option.case dispatched.simps)
  qed
  have b: "unrecovered (dispatched (dispatch (onError m1 e))) = []" for e
  proof (cases "onError m1 e")
    case None
    then show ?thesis by (simp add: dispatch_def)
  next
    case (Some t)
    from onError_no_panic [OF n Some] show ?thesis
      by (simp only: Some dispatch_def option.case dispatched.simps)
  qed
  show ?thesis
    by (simp add: run_iter_unfold [OF rf] a b split: outcome.splits option.splits)
qed

lemma run_iter_differ:
  assumes "differ_in_hooks m m'"
  shows "differ_in_hooks (fst (fst (run_iter P m w))) (fst (fst (run_iter P m' w)))
     \<and> snd (fst (run_iter P m w)) = snd (fst (run_iter P m' w))
     \<and> snd (snd (run_iter P m w)) = snd (snd (run_iter P m' w))"
proof -
  obtain m1 w1 r where rf: "refresh m w = ((m1, w1), r)"
    by (metis surj_pair)
  obtain m1' w1' r' where rf0: "refresh m' w = ((m1', w1'), r')"
    by (metis surj_pair)
  from refresh_differ [OF assms, of w] rf rf0
  have d: "differ_in_hooks m1 m1'" and "w1' = w1" and "r' = r"
    by simp_all
  with rf0 have rf': "refresh m' w = ((m1', w1), r)" by simp
  have e: "ErrorBackoff (opts m1) = ErrorBackoff (opts m1')"
    using d by (simp add: differ_in_hooks_def)
  show ?thesis
    by (simp add: run_iter_unfold [OF rf] run_iter_unfold [OF rf'] d e next_wait_differ [OF d]
        split: outcome.splits option.splits)
qed


lemma run_loop_unfold:
  "run_iter P m w = ((m1, w1), evs, d) \<Longrightarrow>
   run_loop P m w (woke # sc) =
     (case d of
        Panics \<Rightarrow> ((m1, w1), evs, Crashed)
      | Returns x \<Rightarrow>
          (if woke
           then (fst (run_loop P m1 w1 sc), evs @ Slept x # fst (snd (run_loop P m1 w1 sc)),
                 snd (snd (run_loop P m1 w1 sc)))
           else ((m1, w1), evs @ [Slept x], Returned)))"
  by (simp split: outcome.splits prod.splits)

lemma run_loop_differ:
  "differ_in_hooks m m' \<Longrightarrow>
   differ_in_hooks (fst (fst (run_loop P m w sc))) (fst (fst (run_loop P m' w sc)))
     \<and> snd (fst (run_loop P m w sc)) = snd (fst (run_loop P m' w sc))
     \<and> sleeps (fst (snd (run_loop P m w sc))) = sleeps (fst (snd (run_loop P m' w sc)))
     \<and> snd (snd (run_loop P m w sc)) = snd (snd (run_loop P m' w sc))"
proof (induction sc arbitrary: m m' w)
  case Nil
  then show ?case by simp
next
  case (Cons woke sc)
  obtain m1 w1 evs d where it: "run_iter P m w = ((m1, w1), evs, d)"
    by (metis surj_pair)
  obtain m1' w1' evs' d' where it0: "run_iter P m' w = ((m1', w1'), evs', d')"
    by (metis surj_pair)
  from run_iter_differ [OF Cons.prems, of P w] it it0
  have d: "differ_in_hooks m1 m1'" and "w1' = w1" and "d' = d"
    by simp_all
  with it0 have it': "run_iter P m' w = ((m1', w1), evs', d)" by simp
  have s: "sleeps evs = []" "sleeps evs' = []"
    using run_iter_sleeps [of P m w] run_iter_sleeps [of P m' w] it it' by simp_all
  show ?case
    using Cons.IH [OF d, of w1] d s
    by (simp only: run_loop_unfold [OF it] run_loop_unfold [OF it'])
       (simp add: sleeps_append split: outcome.splits)
qed

lemma run_loop_ctx:
  "t \<in> set (dispatched (fst (snd (run_loop P m w sc)))) \<Longrightarrow>
   task_ctx t = WithTimeout Background (HookTimeout (opts m))"
proof (induction sc arbitrary: m w)
  case Nil
  then show ?case by simp
next
  case (Cons woke sc)
  obtain m1 w1 evs d where it: "run_iter P m w = ((m1, w1), evs, d)"
    by (metis surj_pair)
  have o: "opts m1 = opts m" using run_iter_opts [of P m w] it by simp
  have e: "t \<in> set (dispatched evs) \<Longrightarrow> ?case"
    using run_iter_ctx [of t P m w] it by simp
  have r: "t \<in> set (dispatched (fst (snd (run_loop P m1 w1 sc)))) \<Longrightarrow> ?case"
    using Cons.IH [of m1 w1] o by simp
  from Cons.prems have "t \<in> set (dispatched evs)
      \<or> t \<in> set (dispatched (fst (snd (run_loop P m1 w1 sc))))"
    by (simp only: run_loop_unfold [OF it])
       (auto simp: dispatched_append split: outcome.splits if_splits)
  with e r show ?case by blast
qed

lemma run_loop_no_panic:
  "hooks_never_panic m \<Longrightarrow> unrecovered (dispatched (fst (snd (run_loop P m w sc)))) = []"
proof (induction sc arbitrary: m w)
  case Nil
  then show ?case by simp
next
  case (Cons woke sc)
  obtain m1 w1 evs d where it: "run_iter P m w = ((m1, w1), evs, d)"
    by (metis surj_pair)
  have o: "opts m1 = opts m" using run_iter_opts [of P m w] it by simp
  then have n: "hooks_never_panic m1" using Cons.prems by (simp add: hooks_never_panic_def)
  have e: "unrecovered (dispatched evs) = []"
    using run_iter_no_panic [OF Cons.prems, of P w] it by simp
  show ?case
    using Cons.IH [OF n, of w1] e
    by (simp only: run_loop_unfold [OF it])
       (simp add: dispatched_append unrecovered_append split: outcome.splits)
qed


lemma Run_unfold_ready:
  "curr m \<noteq> None \<Longrightarrow> Run P m w sc = run_loop P m w sc"
  by (auto simp: Run_def Current_def split: option.splits)

lemma Run_unfold_not_ready:
  "curr m = None \<Longrightarrow> refresh m w = ((m1, w1), r) \<Longrightarrow>
   Run P m w sc =
     (case r of
        Panics \<Rightarrow> ((m1, w1), [], Crashed)
      | Returns x \<Rightarrow>
          (fst (run_loop P m1 w1 sc),
           dispatch (onError m1 (snd (snd x))) @ fst (snd (run_loop P m1 w1 sc)),
           snd (snd (run_loop P m1 w1 sc))))"
  by (simp add: Run_def Current_def split: outcome.splits prod.splits)

lemma Run_differ:
  assumes "differ_in_hooks m m'"
  shows "differ_in_hooks (fst (fst (Run P m w sc))) (fst (fst (Run P m' w sc)))
     \<and> snd (fst (Run P m w sc)) = snd (fst (Run P m' w sc))
     \<and> sleeps (fst (snd (Run P m w sc))) = sleeps (fst (snd (Run P m' w sc)))
     \<and> snd (snd (Run P m w sc)) = snd (snd (Run P m' w sc))"
proof (cases "curr m")
  case (Some v)
  have "curr m' = curr m"
    using assms by (simp add: differ_in_hooks_def)
  with Some have "curr m \<noteq> None" "curr m' \<noteq> None"
    by simp_all
  then show ?thesis
    using run_loop_differ [OF assms, of P w sc] by (simp add: Run_unfold_ready)
next
  case None
  have "curr m' = curr m"
    using assms by (simp add: differ_in_hooks_def)
  with None have c: "curr m = None" "curr m' = None"
    by simp_all
  obtain m1 w1 r where rf: "refresh m w = ((m1, w1), r)"
    by (metis surj_pair)
  obtain m1' w1' r' where rf0: "refresh m' w = ((m1', w1'), r')"
    by (metis surj_pair)
  from refresh_differ [OF assms, of w] rf rf0
  have d: "differ_in_hooks m1 m1'" and "w1' = w1" and "r' = r"
    by simp_all
  with rf0 have rf': "refresh m' w = ((m1', w1), r)" by simp
  show ?thesis
    using run_loop_differ [OF d, of P w1 sc] d
    by (simp only: Run_unfold_not_ready [OF c(1) rf] Run_unfold_not_ready [OF c(2) rf'])
       (simp add: sleeps_append sleeps_dispatch split: outcome.splits)
qed

lemma Run_ctx:
  assumes "t \<in> set (dispatched (fst (snd (Run P m w sc))))"
  shows "task_ctx t = WithTimeout Background (HookTimeout (opts m))"
proof (cases "curr m")
  case (Some v)
  then show ?thesis
    using assms run_loop_ctx [of t P m w sc] by (simp add: Run_unfold_ready)
next
  case None
  obtain m1 w1 r where rf: "refresh m w = ((m1, w1), r)"
    by (metis surj_pair)
  have o: "opts m1 = opts m" using refresh_opts [of m w] rf by simp
  from assms have "(\<exists>e. onError m1 e = Some t)
      \<or> t \<in> set (dispatched (fst (snd (run_loop P m1 w1 sc))))"
    by (simp only: Run_unfold_not_ready [OF None rf])
       (auto simp: dispatched_append dispatched_dispatch split: outcome.splits option.splits)
  then show ?thesis
    using onError_ctx [of m1 _ t] run_loop_ctx [of t P m1 w1 sc] o by auto
qed

lemma Run_no_panic:
  assumes "hooks_never_panic m"
  shows "unrecovered (dispatched (fst (snd (Run P m w sc)))) = []"
proof (cases "curr m")
  case (Some v)
  then show ?thesis
    using run_loop_no_panic [OF assms, of P w sc] by (simp add: Run_unfold_ready)
next
  case None
  obtain m1 w1 r where rf: "refresh m w = ((m1, w1), r)"
    by (metis surj_pair)
  have o: "opts m1 = opts m" using refresh_opts [of m w] rf by simp
  then have n: "hooks_never_panic m1" using assms by (simp add: hooks_never_panic_def)
  have b: "unrecovered (dispatched (dispatch (onError m1 e))) = []" for e
  proof (cases "onError m1 e")
    case None
    then show ?thesis by (simp add: dispatch_def)
  next
    case (Some t)
    from onError_no_panic [OF n Some] show ?thesis
      by (simp only: Some dispatch_def option.case dispatched.simps)
  qed
  show ?thesis
    using run_loop_no_panic [OF n, of P w1 sc]
    by (simp only: Run_unfold_not_ready [OF None rf])
       (simp add: dispatched_append unrecovered_append b split: outcome.splits)
qed

text \<open>
  Claim C8, as amended. \<open>onRotate\<close> and \<open>onError\<close> hand every hook invocation to a goroutine
  of its own and return without running it, and the context each invocation gets is a fresh
  one whose timeout is \<open>HookTimeout\<close> (second conjunct). Two managers that differ only in
  their hooks, none of which panics (they return, sooner or later, or never return), go
  through the same stored bundles, ask the issuer and the clock the same number of times,
  sleep the same waits and end alike (first conjunct): a hook that fails or never returns
  changes neither the manager's state nor the schedule. With hooks that do not panic no
  goroutine of the run ends in an unrecovered panic (third conjunct). Nothing is said of a
  hook that panics.
\<close>

theorem hooks_leave_refresh_loop_alone:
  "(differ_in_hooks m m' \<and> hooks_never_panic m \<and> hooks_never_panic m'
    \<longrightarrow> differ_in_hooks (fst (fst (Run P m w sc))) (fst (fst (Run P m' w sc)))
        \<and> snd (fst (Run P m w sc)) = snd (fst (Run P m' w sc))
        \<and> sleeps (fst (snd (Run P m w sc))) = sleeps (fst (snd (Run P m' w sc)))
        \<and> process_status (fst (snd (Run P m w sc))) (snd (snd (Run P m w sc)))
            = process_status (fst (snd (Run P m' w sc))) (snd (snd (Run P m' w sc))))
   \<and> (\<forall>t \<in> set (dispatched (fst (snd (Run P m w sc)))).
          task_ctx t = WithTimeout Background (HookTimeout (opts m)))
   \<and> (hooks_never_panic m
    \<longrightarrow> unrecovered (dispatched (fst (snd (Run P m w sc)))) = []
        \<and> process_status (fst (snd (Run P m w sc))) (snd (snd (Run P m w sc)))
            = snd (snd (Run P m w sc)))"
proof (intro conjI impI ballI)
  assume a: "differ_in_hooks m m' \<and> hooks_never_panic m \<and> hooks_never_panic m'"
  then have d: "differ_in_hooks m m'" by simp
  from Run_differ [OF d, of P w sc]
  show "differ_in_hooks (fst (fst (Run P m w sc))) (fst (fst (Run P m' w sc)))"
    and "snd (fst (Run P m w sc)) = snd (fst (Run P m' w sc))"
    and "sleeps (fst (snd (Run P m w sc))) = sleeps (fst (snd (Run P m' w sc)))"
    by simp_all
  from a Run_no_panic [of m P w sc] Run_no_panic [of m' P w sc] Run_differ [OF d, of P w sc]
  show "process_status (fst (snd (Run P m w sc))) (snd (snd (Run P m w sc)))
            = process_status (fst (snd (Run P m' w sc))) (snd (snd (Run P m' w sc)))"
    by (simp add: process_status_def)
next
  fix t assume "t \<in> set (dispatched (fst (snd (Run P m w sc))))"
  then show "task_ctx t = WithTimeout Background (HookTimeout (opts m))"
    by (rule Run_ctx)
next
  assume n: "hooks_never_panic m"
  then show "unrecovered (dispatched (fst (snd (Run P m w sc)))) = []"
    by (rule Run_no_panic)
  then show "process_status (fst (snd (Run P m w sc))) (snd (snd (Run P m w sc)))
            = snd (snd (Run P m w sc))"
    by (simp add: process_status_def)
qed


theorem hooks_leave_refresh_loop_alone_witness:
  "sleeps (fst (snd (Run ex_platform (NewWithOptions ex_platform ex_issuer quiet_hook_options)
      ex_world [True, False]))) = [60000000000, 15000000000]
   \<and> sleeps (fst (snd (Run ex_platform (New ex_platform ex_issuer) ex_world [True, False])))
      = [60000000000, 15000000000]
   \<and> snd (fst (Run ex_platform (NewWithOptions ex_platform ex_issuer quiet_hook_options)
      ex_world [True, False])) = \<lparr>issue_calls = 3, clock_calls = 3\<rparr>
   \<and> unrecovered (dispatched (fst (snd (Run ex_platform
      (NewWithOptions ex_platform ex_issuer quiet_hook_options) ex_world [True, False])))) = []
   \<and> map task_ctx (dispatched (fst (snd (Run ex_platform
      (NewWithOptions ex_platform ex_issuer quiet_hook_options) ex_world [True, False]))))
      = [WithTimeout Background 2000000000, WithTimeout Background 2000000000,
         WithTimeout Background 2000000000]"
proof -
  let ?q = "NewWithOptions ex_platform ex_issuer quiet_hook_options"
  let ?p = "New ex_platform ex_issuer"
  have d: "differ_in_hooks ?q ?p"
    by (simp add: differ_in_hooks_def New_def NewWithOptions_opts NewWithOptions_issuer_of
        NewWithOptions_curr quiet_hook_options_def zero_options_def)
  have nq: "hooks_never_panic ?q"
    by (simp add: hooks_never_panic_def NewWithOptions_opts quiet_hook_options_def
        zero_options_def)
  have np: "hooks_never_panic ?p"
    by (simp add: hooks_never_panic_def New_def NewWithOptions_opts zero_options_def)
  note T = hooks_leave_refresh_loop_alone [of ?q ?p ex_platform ex_world "[True, False]"]
  have e: "sleeps (fst (snd (Run ex_platform ?p ex_world [True, False])))
      = [60000000000, 15000000000]"
    by code_simp
  have w: "snd (fst (Run ex_platform ?p ex_world [True, False]))
      = \<lparr>issue_calls = 3, clock_calls = 3\<rparr>"
    by code_simp
  have c: "map task_ctx (dispatched (fst (snd (Run ex_platform ?q ex_world [True, False]))))
      = [WithTimeout Background 2000000000, WithTimeout Background 2000000000,
         WithTimeout Background 2000000000]"
    by code_simp
  from T d nq np have "sleeps (fst (snd (Run ex_platform ?q ex_world [True, False])))
      = sleeps (fst (snd (Run ex_platform ?p ex_world [True, False])))"
    and "snd (fst (Run ex_platform ?q ex_world [True, False]))
      = snd (fst (Run ex_platform ?p ex_world [True, False]))"
    and "unrecovered (dispatched (fst (snd (Run ex_platform ?q ex_world [True, False])))) = []"
    by blast+
  with e w c show ?thesis by simp
qed

text \<open>
  The claim as it is worded fails: the goroutine of a hook defers only \<open>cancel\<close>, so the
  panic of a hook is not caught where the hook is dispatched. With an issuer that always
  fails and an \<open>OnError\<close> hook that panics, both goroutines the run starts end in an
  unrecovered panic, which ends the process and the refresh loop with it.
\<close>

theorem hook_panic_counterexample:
  "unrecovered (dispatched (fst (snd (Run ex_platform
      (NewWithOptions ex_platform failing_issuer panicking_hook_options) ex_world [False]))))
     = [''boom'', ''boom'']
   \<and> snd (snd (Run ex_platform
      (NewWithOptions ex_platform failing_issuer panicking_hook_options) ex_world [False]))
     = Returned
   \<and> process_status
       (fst (snd (Run ex_platform
          (NewWithOptions ex_platform failing_issuer panicking_hook_options) ex_world [False])))
       (snd (snd (Run ex_platform
          (NewWithOptions ex_platform failing_issuer panicking_hook_options) ex_world [False])))
     = Crashed"
  by code_simp

section \<open>Properties of the identity authorizer\<close>

lemma match_loop_spec:
  "i + length ps \<le> length vs \<Longrightarrow>
   match_loop i ps vs = Returns (list_all2 segment_matches ps (take (length ps) (drop i vs)))"
proof (induction ps arbitrary: i)
  case Nil
  then show ?case by simp
next
  case (Cons p ps)
  then have i: "i < length vs" and r: "Suc i + length ps \<le> length vs"
    by simp_all
  have d: "drop i vs = vs ! i # drop (Suc i) vs"
    using i by (simp add: Cons_nth_drop_Suc)
  show ?case
    using i Cons.IH [OF r] by (simp add: d segment_matches_def)
qed

lemma count_snoc: "strings_Count (xs @ [x]) c = strings_Count xs c + (if x = c then 1 else 0)"
  by (simp add: strings_Count_def)

lemma count_pos: "0 < strings_Count xs c \<longleftrightarrow> c \<in> set xs"
  by (induction xs) (auto simp: strings_Count_def)

lemma star_checks:
  assumes "pattern \<noteq> []"
  shows "(\<not> 1 < strings_Count pattern c
          \<and> \<not> (strings_Contains pattern c \<and> \<not> strings_HasSuffix pattern c))
         \<longleftrightarrow> c \<notin> set (butlast pattern)"
proof -
  have p: "butlast pattern @ [last pattern] = pattern"
    using assms by (rule append_butlast_last_id)
  have "strings_Count (butlast pattern @ [last pattern]) c
      = strings_Count (butlast pattern) c + (if last pattern = c then 1 else 0)"
    by (rule count_snoc)
  then have cnt: "strings_Count pattern c
      = strings_Count (butlast pattern) c + (if last pattern = c then 1 else 0)"
    by (simp only: p)
  have "set (butlast pattern @ [last pattern]) = set (butlast pattern) \<union> {last pattern}"
    by simp
  then have "set pattern = set (butlast pattern) \<union> {last pattern}"
    by (simp only: p)
  then have con: "strings_Contains pattern c \<longleftrightarrow> c \<in> set (butlast pattern) \<or> last pattern = c"
    by (auto simp: strings_Contains_def)
  show ?thesis
    using count_pos [of "butlast pattern" c] assms
    by (auto simp: cnt con strings_HasSuffix_def)
qed

lemma matchSegments_prefix:
  "matchSegments base v True =
     Returns (let psegs = drop_last_empty (strings_Split base CHR ''/'');
                  vsegs = strings_Split v CHR ''/''
              in length psegs \<le> length vsegs
                 \<and> list_all2 segment_matches psegs (take (length psegs) vsegs))"
proof -
  let ?ps = "drop_last_empty (strings_Split base CHR ''/'')"
  let ?vs = "strings_Split v CHR ''/''"
  have m: "matchSegments base v True =
      (if length ?vs < length ?ps then Returns False else match_loop 0 ?ps ?vs)"
    by (simp add: matchSegments_def drop_last_empty_def Let_def)
  show ?thesis
  proof (cases "length ?ps \<le> length ?vs")
    case True
    then show ?thesis
      using match_loop_spec [of 0 ?ps ?vs] by (simp add: m Let_def)
  next
    case False
    then show ?thesis by (simp add: m Let_def)
  qed
qed

lemma matchSegments_exact:
  "matchSegments p v False =
     Returns (let psegs = strings_Split p CHR ''/''; vsegs = strings_Split v CHR ''/''
              in length psegs = length vsegs \<and> list_all2 segment_matches psegs vsegs)"
proof -
  let ?ps = "strings_Split p CHR ''/''"
  let ?vs = "strings_Split v CHR ''/''"
  have m: "matchSegments p v False =
      (if length ?ps \<noteq> length ?vs then Returns False else match_loop 0 ?ps ?vs)"
    by (simp add: matchSegments_def Let_def)
  show ?thesis
  proof (cases "length ?ps = length ?vs")
    case True
    then show ?thesis
      using match_loop_spec [of 0 ?ps ?vs] by (simp add: m Let_def)
  next
    case False
    then show ?thesis by (simp add: m Let_def)
  qed
qed

lemma matchGlob_glob_spec: "matchGlob pattern v = Returns (glob_spec pattern v)"
proof (cases "pattern = [] \<or> v = []")
  case True
  then show ?thesis by (auto simp: matchGlob_def glob_spec_def)
next
  case False
  then have ne: "pattern \<noteq> []" "v \<noteq> []" by simp_all
  show ?thesis
  proof (cases "CHR ''*'' \<in> set (butlast pattern)")
    case True
    with star_checks [OF ne(1), of "CHR ''*''"]
    have "1 < strings_Count pattern CHR ''*''
        \<or> (strings_Contains pattern CHR ''*'' \<and> \<not> strings_HasSuffix pattern CHR ''*'')"
      by blast
    then show ?thesis using True ne by (auto simp: matchGlob_def glob_spec_def)
  next
    case nm: False
    with star_checks [OF ne(1), of "CHR ''*''"]
    have ok: "\<not> 1 < strings_Count pattern CHR ''*''"
        "\<not> (strings_Contains pattern CHR ''*'' \<and> \<not> strings_HasSuffix pattern CHR ''*'')"
      by blast+
    show ?thesis
    proof (cases "last pattern = CHR ''*''")
      case True
      then have hs: "strings_HasSuffix pattern CHR ''*''"
        using ne by (simp add: strings_HasSuffix_def)
      then have "matchGlob pattern v = matchSegments (butlast pattern) v True"
        using ne ok by (simp add: matchGlob_def strings_TrimSuffix_def)
      then show ?thesis
        using True nm ne ok(1) by (simp add: matchSegments_prefix glob_spec_def)
    next
      case False
      then have hs: "\<not> strings_HasSuffix pattern CHR ''*''"
        by (simp add: strings_HasSuffix_def)
      then have "matchGlob pattern v = matchSegments pattern v False"
        using ne ok by (simp add: matchGlob_def)
      then show ?thesis
        using False nm ne ok(1) by (simp add: matchSegments_exact glob_spec_def)
    qed
  qed
qed


text \<open>
  Claim C3. For every pattern and value \<open>matchGlob\<close> returns, without a panic, exactly what
  the restricted glob of the specification says: false when the pattern or the value is
  empty, when the pattern has more than one \<open>*\<close> or a \<open>*\<close> before its last character; with a
  last \<open>*\<close>, whether the segments of the pattern before it (a last empty segment dropped)
  are no more than the value's and match its first segments; without \<open>*\<close>, whether pattern
  and value have the same number of segments and match segment by segment. \<open>+\<close> matches any
  segment that is not empty and every other segment matches itself only.
\<close>

theorem matchGlob_refines_spec: "matchGlob pattern v = Returns (glob_spec pattern v)"
  by (rule matchGlob_glob_spec)

theorem matchGlob_refines_spec_witness:
  "glob_spec ''spiffe://corp/prod/*'' ''spiffe://corp/prod''
   \<and> glob_spec ''spiffe://corp/prod/*'' ''spiffe://corp/prod/a/b''
   \<and> glob_spec ''spiffe://corp/+/svc'' ''spiffe://corp/prod/svc''
   \<and> glob_spec ''*'' ''anything/at/all''
   \<and> \<not> glob_spec ''spiffe://corp/+/svc'' ''spiffe://corp//svc''
   \<and> \<not> glob_spec ''spiffe://corp/prod'' ''spiffe://corp/prod/extra''
   \<and> \<not> glob_spec ''spiffe://corp/*/bad'' ''spiffe://corp/prod/bad''
   \<and> \<not> glob_spec ''spiffe://corp/**'' ''spiffe://corp/prod''
   \<and> \<not> glob_spec [] ''spiffe://corp/prod''"
proof -
  have "matchGlob ''spiffe://corp/prod/*'' ''spiffe://corp/prod'' = Returns True"
    and "matchGlob ''spiffe://corp/prod/*'' ''spiffe://corp/prod/a/b'' = Returns True"
    and "matchGlob ''spiffe://corp/+/svc'' ''spiffe://corp/prod/svc'' = Returns True"
    and "matchGlob ''*'' ''anything/at/all'' = Returns True"
    and "matchGlob ''spiffe://corp/+/svc'' ''spiffe://corp//svc'' = Returns False"
    and "matchGlob ''spiffe://corp/prod'' ''spiffe://corp/prod/extra'' = Returns False"
    and "matchGlob ''spiffe://corp/*/bad'' ''spiffe://corp/prod/bad'' = Returns False"
    and "matchGlob ''spiffe://corp/**'' ''spiffe://corp/prod'' = Returns False"
    and "matchGlob [] ''spiffe://corp/prod'' = Returns False"
    by code_simp+
  then show ?thesis
    by (simp add: matchGlob_refines_spec)
qed

lemma strings_HasPrefix_iff: "strings_HasPrefix s p \<longleftrightarrow> (\<exists>rest. s = p @ rest)"
proof
  assume "strings_HasPrefix s p"
  then have "take (length p) s = p" by (simp add: strings_HasPrefix_def)
  then have "s = p @ drop (length p) s" by (metis append_take_drop_id)
  then show "\<exists>rest. s = p @ rest" ..
next
  assume "\<exists>rest. s = p @ rest"
  then show "strings_HasPrefix s p" by (auto simp: strings_HasPrefix_def)
qed

lemma starts_with_iff: "starts_with s p \<longleftrightarrow> (\<exists>rest. s = p @ rest)"
  by (induction s p rule: starts_with.induct) auto

lemma any_exact_iff: "any_exact ident xs = list_ex (\<lambda>exact. ident = exact) xs"
  by (induction xs) simp_all

lemma any_prefix_iff: "any_prefix ident xs = list_ex (\<lambda>p. starts_with ident p) xs"
  by (induction xs) (simp_all add: strings_HasPrefix_iff starts_with_iff)

lemma any_glob_iff: "any_glob ident gs = Returns (list_ex (\<lambda>g. glob_spec g ident) gs)"
  by (induction gs) (simp_all add: matchGlob_glob_spec split: bool.splits)

lemma verify_uris_iff:
  "None \<notin> set us \<Longrightarrow>
   verify_uris a us =
     Returns (if list_ex (\<lambda>u. case u of None \<Rightarrow> False
                              | Some uri \<Rightarrow> Scheme uri = ''spiffe'' \<and> rule_allows a (url_String uri)) us
              then None else Some (ErrorsNew ''client SPIFFE ID not allowed''))"
proof (induction us)
  case Nil
  then show ?case by simp
next
  case (Cons u us)
  then obtain uri where u: "u = Some uri" by (cases u) auto
  from Cons have "None \<notin> set us" by simp
  with Cons.IH show ?case
    by (simp add: u rule_allows_def any_exact_iff any_prefix_iff any_glob_iff Let_def
        split: bool.splits)
qed

lemma leaf_allowed_iff:
  "leaf_allowed a leaf \<longleftrightarrow>
     (\<exists>uri. Some uri \<in> set (URIs leaf) \<and> Scheme uri = ''spiffe''
        \<and> (url_String uri \<in> set (AllowedExact a)
           \<or> (\<exists>p \<in> set (AllowedPrefixes a). \<exists>rest. url_String uri = p @ rest)
           \<or> (\<exists>g \<in> set (AllowedGlobs a). glob_spec g (url_String uri))))"
  by (auto simp: leaf_allowed_def rule_allows_def list_ex_iff starts_with_iff
      split: option.splits)

text \<open>
  Claim C4. \<open>VerifyPeerCertificate\<close> rejects with the error \<open>no verified chain\<close> when there
  is no verified chain or the first one is empty. Otherwise, for the leaf of the first
  chain (the certificate and its URIs being the non-nil pointers that the TLS stack hands
  over), it accepts, returning nil, exactly when the leaf is allowed, and rejects with the
  error \<open>client SPIFFE ID not allowed\<close> when it is not. The leaf is allowed exactly when one
  of its URIs has the scheme \<open>spiffe\<close> and a text that is equal to an exact rule, or is a
  prefix rule followed by any text, or is matched by a glob rule as the restricted glob of
  the specification defines it; URIs of other schemes do not count. The order in which the
  rules are tried (exact, prefix, glob, returning at the first match) is that of the
  definition and cannot be seen in the result.
\<close>

theorem VerifyPeerCertificate_accepts_iff:
  "(verifiedChains = [] \<or> hd verifiedChains = []
    \<longrightarrow> VerifyPeerCertificate a rawCerts verifiedChains
        = Returns (Some (ErrorsNew ''no verified chain'')))
   \<and> (verifiedChains = (Some leaf # chain) # others \<and> None \<notin> set (URIs leaf)
    \<longrightarrow> VerifyPeerCertificate a rawCerts verifiedChains
        = Returns (if leaf_allowed a leaf then None
                   else Some (ErrorsNew ''client SPIFFE ID not allowed'')))
   \<and> (leaf_allowed a leaf \<longleftrightarrow>
        (\<exists>uri. Some uri \<in> set (URIs leaf) \<and> Scheme uri = ''spiffe''
          \<and> (url_String uri \<in> set (AllowedExact a)
             \<or> (\<exists>p \<in> set (AllowedPrefixes a). \<exists>rest. url_String uri = p @ rest)
             \<or> (\<exists>g \<in> set (AllowedGlobs a). glob_spec g (url_String uri)))))"
proof (intro conjI impI)
  assume "verifiedChains = [] \<or> hd verifiedChains = []"
  then show "VerifyPeerCertificate a rawCerts verifiedChains
        = Returns (Some (ErrorsNew ''no verified chain''))"
    by (auto simp: VerifyPeerCertificate_def split: list.splits)
next
  assume "verifiedChains = (Some leaf # chain) # others \<and> None \<notin> set (URIs leaf)"
  then show "VerifyPeerCertificate a rawCerts verifiedChains
        = Returns (if leaf_allowed a leaf then None
                   else Some (ErrorsNew ''client SPIFFE ID not allowed''))"
    by (simp add: VerifyPeerCertificate_def verify_uris_iff leaf_allowed_def)
next
  show "leaf_allowed a leaf \<longleftrightarrow>
        (\<exists>uri. Some uri \<in> set (URIs leaf) \<and> Scheme uri = ''spiffe''
          \<and> (url_String uri \<in> set (AllowedExact a)
             \<or> (\<exists>p \<in> set (AllowedPrefixes a). \<exists>rest. url_String uri = p @ rest)
             \<or> (\<exists>g \<in> set (AllowedGlobs a). glob_spec g (url_String uri))))"
    by (rule leaf_allowed_iff)
qed

text \<open>
  The examples of the specification and of the tests: an exact rule matches the literal
  text only, the prefix \<open>spiffe://a/\<close> matches \<open>spiffe://a/b/c\<close> and not \<open>spiffe://a2/x\<close>, the
  glob \<open>spiffe://a/+/c\<close> matches \<open>spiffe://a/b/c\<close> and neither \<open>spiffe://a//c\<close> nor
  \<open>spiffe://a/b/x/c\<close>, and a URI of another scheme is passed over even when a prefix rule
  fits its text.
\<close>

theorem VerifyPeerCertificate_accepts_iff_witness:
  "VerifyPeerCertificate exact_authorizer [] [[Some (leaf_with [https_uri, api_uri])]] = Returns None
   \<and> VerifyPeerCertificate prefix_authorizer [] [[Some (leaf_with [api_uri])]] = Returns None
   \<and> VerifyPeerCertificate glob_authorizer [] [[Some (leaf_with [api_uri])]] = Returns None
   \<and> VerifyPeerCertificate https_authorizer [] [[Some (leaf_with [https_uri])]]
      = Returns (Some (ErrorsNew ''client SPIFFE ID not allowed''))
   \<and> VerifyPeerCertificate glob_authorizer [] [[Some (leaf_with [])]]
      = Returns (Some (ErrorsNew ''client SPIFFE ID not allowed''))
   \<and> VerifyPeerCertificate exact_authorizer [] [] = Returns (Some (ErrorsNew ''no verified chain''))
   \<and> VerifyPeerCertificate exact_authorizer [] [[]] = Returns (Some (ErrorsNew ''no verified chain''))
   \<and> VerifyPeerCertificate (exact_rule ''spiffe://a/b'') []
        [[Some (leaf_with [spiffe_uri ''spiffe://a/b''])]] = Returns None
   \<and> VerifyPeerCertificate (exact_rule ''spiffe://a/b'') []
        [[Some (leaf_with [spiffe_uri ''spiffe://a/b/c''])]]
      = Returns (Some (ErrorsNew ''client SPIFFE ID not allowed''))
   \<and> VerifyPeerCertificate (exact_rule ''spiffe://a/b'') []
        [[Some (leaf_with [spiffe_uri ''spiffe://a/c''])]]
      = Returns (Some (ErrorsNew ''client SPIFFE ID not allowed''))
   \<and> VerifyPeerCertificate (prefix_rule ''spiffe://a/'') []
        [[Some (leaf_with [spiffe_uri ''spiffe://a/b/c''])]] = Returns None
   \<and> VerifyPeerCertificate (prefix_rule ''spiffe://a/'') []
        [[Some (leaf_with [spiffe_uri ''spiffe://a2/x''])]]
      = Returns (Some (ErrorsNew ''client SPIFFE ID not allowed''))
   \<and> VerifyPeerCertificate (prefix_rule ''spiffe://a/'') []
        [[Some (leaf_with [spiffe_uri ''spiffe://a''])]]
      = Returns (Some (ErrorsNew ''client SPIFFE ID not allowed''))
   \<and> VerifyPeerCertificate (glob_rule ''spiffe://a/+/c'') []
        [[Some (leaf_with [spiffe_uri ''spiffe://a/b/c''])]] = Returns None
   \<and> VerifyPeerCertificate (glob_rule ''spiffe://a/+/c'') []
        [[Some (leaf_with [spiffe_uri ''spiffe://a//c''])]]
      = Returns (Some (ErrorsNew ''client SPIFFE ID not allowed''))
   \<and> VerifyPeerCertificate (glob_rule ''spiffe://a/+/c'') []
        [[Some (leaf_with [spiffe_uri ''spiffe://a/b/x/c''])]]
      = Returns (Some (ErrorsNew ''client SPIFFE ID not allowed''))
   \<and> VerifyPeerCertificate (prefix_rule ''spiffe://a/'') []
        [[Some (leaf_with [spiffe_uri ''spiffe://a2/x'', spiffe_uri ''spiffe://a/b''])]]
      = Returns None"
proof -
  note T = VerifyPeerCertificate_accepts_iff
  have n: "None \<notin> set (URIs (leaf_with us))" for us
    by (auto simp: leaf_with_def)
  have V: "VerifyPeerCertificate a [] [[Some (leaf_with us)]]
      = Returns (if leaf_allowed a (leaf_with us) then None
                 else Some (ErrorsNew ''client SPIFFE ID not allowed''))" for a us
    using T [where verifiedChains = "[[Some (leaf_with us)]]" and leaf = "leaf_with us"
        and chain = "[]" and others = "[]" and a = a and rawCerts = "[]"] n
    by simp
  have E: "VerifyPeerCertificate exact_authorizer [] [] = Returns (Some (ErrorsNew ''no verified chain''))"
      "VerifyPeerCertificate exact_authorizer [] [[]] = Returns (Some (ErrorsNew ''no verified chain''))"
    using T [where verifiedChains = "[]" and a = exact_authorizer and rawCerts = "[]"]
      T [where verifiedChains = "[[]]" and a = exact_authorizer and rawCerts = "[]"]
    by simp_all
  have u: "URIs (leaf_with us) = map Some us" for us
    by (simp add: leaf_with_def)
  have s: "Scheme (spiffe_uri x) = ''spiffe''" "url_String (spiffe_uri x) = x" for x
    by (simp_all add: spiffe_uri_def)
  have x: "leaf_allowed (exact_rule r) (leaf_with [spiffe_uri t]) \<longleftrightarrow> t = r" for r t
    using T [where a = "exact_rule r" and leaf = "leaf_with [spiffe_uri t]"]
    by (auto simp: u s exact_rule_def)
  have p: "leaf_allowed (prefix_rule r) (leaf_with (map spiffe_uri ts))
      \<longleftrightarrow> (\<exists>t \<in> set ts. \<exists>rest. t = r @ rest)" for r ts
    using T [where a = "prefix_rule r" and leaf = "leaf_with (map spiffe_uri ts)"]
    by (auto simp: u s prefix_rule_def)
  have g: "leaf_allowed (glob_rule r) (leaf_with [spiffe_uri t]) \<longleftrightarrow> glob_spec r t" for r t
    using T [where a = "glob_rule r" and leaf = "leaf_with [spiffe_uri t]"]
    by (auto simp: u s glob_rule_def)
  have a: "leaf_allowed exact_authorizer (leaf_with [https_uri, api_uri])"
    "leaf_allowed prefix_authorizer (leaf_with [api_uri])"
    "leaf_allowed glob_authorizer (leaf_with [api_uri])"
    "\<not> leaf_allowed https_authorizer (leaf_with [https_uri])"
    "\<not> leaf_allowed glob_authorizer (leaf_with [])"
    by code_simp+
  have gs: "glob_spec ''spiffe://a/+/c'' ''spiffe://a/b/c''"
    "\<not> glob_spec ''spiffe://a/+/c'' ''spiffe://a//c''"
    "\<not> glob_spec ''spiffe://a/+/c'' ''spiffe://a/b/x/c''"
    by code_simp+
  have p1: "leaf_allowed (prefix_rule ''spiffe://a/'') (leaf_with [spiffe_uri ''spiffe://a/b/c''])"
    using p [of "''spiffe://a/''" "[''spiffe://a/b/c'']"] by simp
  have p2: "\<not> leaf_allowed (prefix_rule ''spiffe://a/'') (leaf_with [spiffe_uri ''spiffe://a2/x''])"
    using p [of "''spiffe://a/''" "[''spiffe://a2/x'']"] by simp
  have p3: "\<not> leaf_allowed (prefix_rule ''spiffe://a/'') (leaf_with [spiffe_uri ''spiffe://a''])"
    using p [of "''spiffe://a/''" "[''spiffe://a'']"] by simp
  have p4: "leaf_allowed (prefix_rule ''spiffe://a/'')
      (leaf_with [spiffe_uri ''spiffe://a2/x'', spiffe_uri ''spiffe://a/b''])"
    using p [of "''spiffe://a/''" "[''spiffe://a2/x'', ''spiffe://a/b'']"] by simp
  show ?thesis
    by (simp add: V E a x g gs p1 p2 p3 p4)
qed

section \<open>Properties of the PKI backend client\<close>

lemma doJSON_sent:
  "doJSON L c sent m u b ra = (sent1, r) \<Longrightarrow>
   sent1 = sent
   \<or> sent1 = sent @ [\<lparr>req_method = m, req_url = u,
                       req_namespace = (if Namespace c \<noteq> [] then Some (Namespace c) else None),
                       req_token = (if ra then Some (Token c) else None), req_body = b\<rparr>]"
  by (auto simp: doJSON_def Let_def split: option.splits if_splits sum.splits)

lemma doJSON_ok_sent:
  "doJSON L c sent m u b ra = (sent1, Inr resp) \<Longrightarrow>
   sent1 = sent @ [\<lparr>req_method = m, req_url = u,
                     req_namespace = (if Namespace c \<noteq> [] then Some (Namespace c) else None),
                     req_token = (if ra then Some (Token c) else None), req_body = b\<rparr>]"
  by (auto simp: doJSON_def Let_def split: option.splits if_splits sum.splits)

lemma issue_attempts_simps [simp]:
  "issue_attempts [] = 0"
  "issue_attempts (xs @ ys) = issue_attempts xs + issue_attempts ys"
  "issue_attempts [r] = (if is_issue_request r then 1 else 0)"
  by (simp_all add: issue_attempts_def)

lemma login_attempts_simps [simp]:
  "login_attempts [] = 0"
  "login_attempts (xs @ ys) = login_attempts xs + login_attempts ys"
  "login_attempts [r] = (if is_issue_request r then 0 else 1)"
  by (simp_all add: login_attempts_def)

lemma ensureToken_sent:
  assumes "ensureToken L c sent = ((c1, sent1), r)"
  shows "\<exists>new. sent1 = sent @ new \<and> issue_attempts new = 0 \<and> login_attempts new \<le> 1
          \<and> (Token c \<noteq> [] \<longrightarrow> new = [])"
proof (cases "Token c \<noteq> [] \<or> RoleID c = [] \<or> SecretID c = []")
  case True
  then have "sent1 = sent" using assms by (auto simp: ensureToken_def split: if_splits)
  then show ?thesis by simp
next
  case False
  let ?u = "Client_url c (path_Join L [''v1'', if AuthPath c = [] then ''auth/approle/login'' else AuthPath c])"
  let ?b = "LoginPayload (RoleID c) (SecretID c)"
  obtain s2 r2 where d: "doJSON L c sent ''POST'' ?u ?b False = (s2, r2)"
    by (metis surj_pair)
  then have "sent1 = s2"
    using assms False
    by (auto simp: ensureToken_def Let_def split: if_splits sum.splits prod.splits)
  with doJSON_sent [OF d] have "sent1 = sent \<or> (\<exists>q. sent1 = sent @ [q] \<and> \<not> is_issue_request q)"
    by auto
  then show ?thesis using False by auto
qed


lemma ensureToken_login:
  assumes "Token c = []" "RoleID c \<noteq> []" "SecretID c \<noteq> []"
  shows "ensureToken L c sent =
     (case doJSON L c sent ''POST'' (login_endpoint L c) (LoginPayload (RoleID c) (SecretID c)) False of
        (sent1, Inl e) \<Rightarrow> ((c, sent1), Some e)
      | (sent1, Inr resp) \<Rightarrow>
          (case json_Decode_login L (Body resp) of
             Inl e \<Rightarrow> ((c, sent1), Some e)
           | Inr tok \<Rightarrow>
               (if tok = []
                then ((c, sent1), Some (ErrorsNew ''vault approle auth returned empty token''))
                else ((c\<lparr>Token := tok\<rparr>, sent1), None))))"
  using assms by (simp add: ensureToken_def login_endpoint_def Let_def)

lemma ensureToken_ok_token:
  assumes "ensureToken L c sent = ((c1, sent1), None)"
  shows "Token c1 \<noteq> []"
proof (cases "Token c = []")
  case False
  then show ?thesis using assms by (simp add: ensureToken_def)
next
  case True
  then have cr: "RoleID c \<noteq> []" "SecretID c \<noteq> []"
    using assms by (auto simp: ensureToken_def split: if_splits)
  show ?thesis
    using assms
    by (auto simp: ensureToken_login [OF True cr] split: prod.splits sum.splits if_splits)
qed

lemma ensureToken_error_keeps:
  assumes "ensureToken L c sent = ((c1, sent1), Some e)"
  shows "c1 = c"
proof (cases "Token c \<noteq> [] \<or> RoleID c = [] \<or> SecretID c = []")
  case True
  then show ?thesis using assms by (auto simp: ensureToken_def split: if_splits)
next
  case False
  then have t: "Token c = []" and cr: "RoleID c \<noteq> []" "SecretID c \<noteq> []" by simp_all
  show ?thesis
    using assms
    by (auto simp: ensureToken_login [OF t cr] split: prod.splits sum.splits if_splits)
qed

lemma doJSON_auth_token:
  "http_NewRequest L m u = None \<Longrightarrow> Token c \<noteq> [] \<Longrightarrow>
   fst (doJSON L c sent m u b True) =
     sent @ [\<lparr>req_method = m, req_url = u,
              req_namespace = (if Namespace c \<noteq> [] then Some (Namespace c) else None),
              req_token = Some (Token c), req_body = b\<rparr>]"
  by (simp add: doJSON_def Let_def split: sum.splits)

text \<open>
  Claim C9. \<open>ensureToken\<close> with a token held returns at once: no request, nothing changed
  (first conjunct). Without a token, and without a role identifier or a secret identifier,
  it fails with \<open>ErrAuthRequired\<close> and sends nothing (second conjunct). Without a token and
  with both credentials it posts one login; when the login answer decodes to an empty
  \<open>client_token\<close> it fails and stores nothing, otherwise it stores the token (third
  conjunct). In every case it sends at most one request, a login, and none when a token is
  held; when it succeeds the client holds a token that is not empty, and the next
  authenticated request carries that token; when it fails the client is as it was (fourth
  conjunct).
\<close>

theorem ensureToken_lazy_login:
  "(Token c \<noteq> [] \<longrightarrow> ensureToken L c sent = ((c, sent), None))
   \<and> (Token c = [] \<and> (RoleID c = [] \<or> SecretID c = [])
      \<longrightarrow> ensureToken L c sent = ((c, sent), Some ErrAuthRequired))
   \<and> (Token c = [] \<and> RoleID c \<noteq> [] \<and> SecretID c \<noteq> []
       \<and> doJSON L c sent ''POST'' (login_endpoint L c) (LoginPayload (RoleID c) (SecretID c)) False
           = (sent1, Inr resp)
       \<and> json_Decode_login L (Body resp) = Inr tok
      \<longrightarrow> ensureToken L c sent =
           (if tok = []
            then ((c, sent1), Some (ErrorsNew ''vault approle auth returned empty token''))
            else ((c\<lparr>Token := tok\<rparr>, sent1), None)))
   \<and> (ensureToken L c sent = ((c', sent'), r)
      \<longrightarrow> (\<exists>new. sent' = sent @ new \<and> issue_attempts new = 0 \<and> login_attempts new \<le> 1
                \<and> (Token c \<noteq> [] \<longrightarrow> new = []))
          \<and> (r = None \<longrightarrow> Token c' \<noteq> [])
          \<and> (r \<noteq> None \<longrightarrow> c' = c)
          \<and> (r = None \<and> http_NewRequest L m u = None
              \<longrightarrow> fst (doJSON L c' sent' m u b True) =
                    sent' @ [\<lparr>req_method = m, req_url = u,
                               req_namespace = (if Namespace c' \<noteq> [] then Some (Namespace c') else None),
                               req_token = Some (Token c'), req_body = b\<rparr>]))"
proof (intro conjI impI)
  assume "Token c \<noteq> []"
  then show "ensureToken L c sent = ((c, sent), None)"
    by (simp add: ensureToken_def)
next
  assume "Token c = [] \<and> (RoleID c = [] \<or> SecretID c = [])"
  then show "ensureToken L c sent = ((c, sent), Some ErrAuthRequired)"
    by (auto simp: ensureToken_def)
next
  assume a: "Token c = [] \<and> RoleID c \<noteq> [] \<and> SecretID c \<noteq> []
       \<and> doJSON L c sent ''POST'' (login_endpoint L c) (LoginPayload (RoleID c) (SecretID c)) False
           = (sent1, Inr resp)
       \<and> json_Decode_login L (Body resp) = Inr tok"
  then have "Token c = []" "RoleID c \<noteq> []" "SecretID c \<noteq> []" by simp_all
  from ensureToken_login [OF this, of L sent] a
  show "ensureToken L c sent =
           (if tok = []
            then ((c, sent1), Some (ErrorsNew ''vault approle auth returned empty token''))
            else ((c\<lparr>Token := tok\<rparr>, sent1), None))"
    by simp
next
  assume e: "ensureToken L c sent = ((c', sent'), r)"
  then show "\<exists>new. sent' = sent @ new \<and> issue_attempts new = 0 \<and> login_attempts new \<le> 1
                \<and> (Token c \<noteq> [] \<longrightarrow> new = [])"
    by (rule ensureToken_sent)
  show "Token c' \<noteq> []" if "r = None"
    using e that ensureToken_ok_token [of L c sent c' sent'] by simp
  show "c' = c" if "r \<noteq> None"
    using e that ensureToken_error_keeps [of L c sent c' sent'] by auto
  show "fst (doJSON L c' sent' m u b True) =
          sent' @ [\<lparr>req_method = m, req_url = u,
                     req_namespace = (if Namespace c' \<noteq> [] then Some (Namespace c') else None),
                     req_token = Some (Token c'), req_body = b\<rparr>]"
    if "r = None \<and> http_NewRequest L m u = None"
    using e that ensureToken_ok_token [of L c sent c' sent'] doJSON_auth_token [of L m u c' sent' b]
    by simp
qed


theorem ensureToken_lazy_login_witness:
  "ensureToken (test_library (test_server ''token=good'' ''leaf+key'')) (token_client ''tok'') []
     = ((token_client ''tok'', []), None)
   \<and> ensureToken (test_library (test_server ''token=good'' ''leaf+key'')) (token_client []) []
     = ((token_client [], []), Some ErrAuthRequired)
   \<and> ensureToken (test_library (test_server ''token=good'' ''leaf+key'')) (approle_client []) []
     = ((approle_client ''good'', [login_request]), None)
   \<and> ensureToken (test_library (test_server ''token='' ''leaf+key'')) (approle_client []) []
     = ((approle_client [], [login_request]),
        Some (ErrorsNew ''vault approle auth returned empty token''))"
proof -
  let ?L = "test_library (test_server ''token=good'' ''leaf+key'')"
  let ?E = "test_library (test_server ''token='' ''leaf+key'')"
  note T = ensureToken_lazy_login
  have 1: "ensureToken ?L (token_client ''tok'') [] = ((token_client ''tok'', []), None)"
    using T [where c = "token_client ''tok''" and L = ?L and sent = "[]"]
    by (simp add: token_client_def)
  have 2: "ensureToken ?L (token_client []) [] = ((token_client [], []), Some ErrAuthRequired)"
    using T [where c = "token_client []" and L = ?L and sent = "[]"]
    by (simp add: token_client_def)
  have cr: "Token (approle_client []) = [] \<and> RoleID (approle_client []) \<noteq> []
      \<and> SecretID (approle_client []) \<noteq> []"
    by (simp add: approle_client_def)
  have dl: "doJSON ?L (approle_client []) [] ''POST'' (login_endpoint ?L (approle_client []))
      (LoginPayload (RoleID (approle_client [])) (SecretID (approle_client []))) False
      = ([login_request], Inr \<lparr>StatusCode = 200, Body = ''token=good''\<rparr>)"
    by code_simp
  have de: "doJSON ?E (approle_client []) [] ''POST'' (login_endpoint ?E (approle_client []))
      (LoginPayload (RoleID (approle_client [])) (SecretID (approle_client []))) False
      = ([login_request], Inr \<lparr>StatusCode = 200, Body = ''token=''\<rparr>)"
    by code_simp
  have jl: "json_Decode_login ?L (Body \<lparr>StatusCode = 200, Body = ''token=good''\<rparr>) = Inr ''good''"
    by (simp add: test_library_def)
  have je: "json_Decode_login ?E (Body \<lparr>StatusCode = 200, Body = ''token=''\<rparr>) = Inr []"
    by (simp add: test_library_def)
  have up: "(approle_client [])\<lparr>Token := ''good''\<rparr> = approle_client ''good''"
    by (simp add: approle_client_def)
  have 3: "ensureToken ?L (approle_client []) [] = ((approle_client ''good'', [login_request]), None)"
    using T [where c = "approle_client []" and L = ?L and sent = "[]"
        and ?sent1.0 = "[login_request]" and resp = "\<lparr>StatusCode = 200, Body = ''token=good''\<rparr>"
        and tok = "''good''"] cr dl jl up
    by simp
  have 4: "ensureToken ?E (approle_client []) []
      = ((approle_client [], [login_request]),
         Some (ErrorsNew ''vault approle auth returned empty token''))"
    using T [where c = "approle_client []" and L = ?E and sent = "[]"
        and ?sent1.0 = "[login_request]" and resp = "\<lparr>StatusCode = 200, Body = ''token=''\<rparr>"
        and tok = "[]"] cr de je
    by simp
  from 1 2 3 4 show ?thesis by simp
qed

lemma doJSON_issue_new:
  assumes "doJSON L c s m u (IssuePayload q) ra = (s', r)"
  shows "\<exists>n. s' = s @ n \<and> issue_attempts n \<le> 1 \<and> login_attempts n = 0"
proof -
  from doJSON_sent [OF assms]
  have "s' = s @ [] \<or> (\<exists>x. s' = s @ [x] \<and> is_issue_request x)"
    by auto
  then show ?thesis
    by (metis issue_attempts_simps(1,3) login_attempts_simps(1,3) le_refl zero_le_one)
qed

lemma Client_Issue_preamble:
  assumes "Addr c \<noteq> []" "pkiPath \<noteq> []" "role \<noteq> []"
    and "ensureToken L c sent = ((c1, sent1), None)"
  shows "Client_Issue L c sent pkiPath role req =
     (case doJSON L c1 sent1 ''POST'' (issue_endpoint L c1 pkiPath role) (IssuePayload req) True of
        (sent2, Inr resp) \<Rightarrow> ((c1, sent2), decodeIssue L resp)
      | (sent2, Inl err) \<Rightarrow>
          (if isAuthError err \<and> RoleID c1 \<noteq> [] \<and> SecretID c1 \<noteq> []
           then
             (case ensureToken L (c1\<lparr>Token := []\<rparr>) sent2 of
                (s3, Some e) \<Rightarrow> (s3, Inl e)
              | ((c3, sent3), None) \<Rightarrow>
                  (case doJSON L c3 sent3 ''POST'' (issue_endpoint L c1 pkiPath role)
                          (IssuePayload req) True of
                     (sent4, Inl err2) \<Rightarrow> ((c3, sent4), Inl err2)
                   | (sent4, Inr resp) \<Rightarrow> ((c3, sent4), decodeIssue L resp)))
           else ((c1, sent2), Inl err)))"
  unfolding issue_endpoint_def using assms by (simp add: Client_Issue_def Let_def)

lemma Client_Issue_early:
  assumes "Addr c = [] \<or> pkiPath = [] \<or> role = [] \<or> (\<exists>e. ensureToken L c sent = ((c1, sent1), Some e))"
    and "ensureToken L c sent = ((c1, sent1), r1)"
    and "Client_Issue L c sent pkiPath role req = ((c', sent'), res)"
  shows "sent' = sent \<or> sent' = sent1"
  using assms by (auto simp: Client_Issue_def split: if_splits)


lemma Client_Issue_sent:
  assumes R: "Client_Issue L c sent pkiPath role req = ((c', sent'), res)"
  shows "\<exists>new. sent' = sent @ new \<and> issue_attempts new \<le> 2 \<and> login_attempts new \<le> 2"
proof -
  obtain c1 sent1 r1 where e1: "ensureToken L c sent = ((c1, sent1), r1)"
    by (metis surj_pair)
  from ensureToken_sent [OF e1] obtain n1 where
    n1: "sent1 = sent @ n1" "issue_attempts n1 = 0" "login_attempts n1 \<le> 1"
    by blast
  show ?thesis
  proof (cases "Addr c = [] \<or> pkiPath = [] \<or> role = [] \<or> r1 \<noteq> None")
    case True
    then have "Addr c = [] \<or> pkiPath = [] \<or> role = []
        \<or> (\<exists>e. ensureToken L c sent = ((c1, sent1), Some e))"
      using e1 by auto
    from Client_Issue_early [OF this e1 R] have "sent' = sent @ [] \<or> sent' = sent @ n1"
      using n1 by simp
    then show ?thesis
    proof
      assume "sent' = sent @ []"
      moreover have "issue_attempts [] \<le> 2 \<and> login_attempts [] \<le> 2" by simp
      ultimately show ?thesis by blast
    next
      assume "sent' = sent @ n1"
      moreover have "issue_attempts n1 \<le> 2 \<and> login_attempts n1 \<le> 2" using n1 by simp
      ultimately show ?thesis by blast
    qed
  next
    case False
    then have pre: "Addr c \<noteq> []" "pkiPath \<noteq> []" "role \<noteq> []"
      and ok: "ensureToken L c sent = ((c1, sent1), None)"
      using e1 by simp_all
    let ?u = "issue_endpoint L c1 pkiPath role"
    obtain sent2 r2 where d2: "doJSON L c1 sent1 ''POST'' ?u (IssuePayload req) True = (sent2, r2)"
      by (metis surj_pair)
    from doJSON_issue_new [OF d2] obtain n2 where
      n2: "sent2 = sent1 @ n2" "issue_attempts n2 \<le> 1" "login_attempts n2 = 0"
      by blast
    obtain c3 sent3 r3 where e3: "ensureToken L (c1\<lparr>Token := []\<rparr>) sent2 = ((c3, sent3), r3)"
      by (metis surj_pair)
    from ensureToken_sent [OF e3] obtain n3 where
      n3: "sent3 = sent2 @ n3" "issue_attempts n3 = 0" "login_attempts n3 \<le> 1"
      by blast
    obtain sent4 r4 where d4: "doJSON L c3 sent3 ''POST'' ?u (IssuePayload req) True = (sent4, r4)"
      by (metis surj_pair)
    from doJSON_issue_new [OF d4] obtain n4 where
      n4: "sent4 = sent3 @ n4" "issue_attempts n4 \<le> 1" "login_attempts n4 = 0"
      by blast
    from R have "sent' = sent2 \<or> sent' = sent3 \<or> sent' = sent4"
      by (auto simp: Client_Issue_preamble [OF pre ok] d2 e3 d4
          split: sum.splits if_splits option.splits)
    then consider "sent' = sent @ (n1 @ n2)" | "sent' = sent @ (n1 @ n2 @ n3)"
      | "sent' = sent @ (n1 @ n2 @ n3 @ n4)"
      using n1 n2 n3 n4 by auto
    then show ?thesis
    proof cases
      case 1
      have "issue_attempts (n1 @ n2) \<le> 2 \<and> login_attempts (n1 @ n2) \<le> 2"
        using n1 n2 by simp
      with 1 show ?thesis by blast
    next
      case 2
      have "issue_attempts (n1 @ n2 @ n3) \<le> 2 \<and> login_attempts (n1 @ n2 @ n3) \<le> 2"
        using n1 n2 n3 by simp
      with 2 show ?thesis by blast
    next
      case 3
      have "issue_attempts (n1 @ n2 @ n3 @ n4) \<le> 2 \<and> login_attempts (n1 @ n2 @ n3 @ n4) \<le> 2"
        using n1 n2 n3 n4 by simp
      with 3 show ?thesis by blast
    qed
  qed
qed


lemma contains_substring_prefix: "strings_HasPrefix xs sub \<Longrightarrow> contains_substring xs sub"
  by (cases xs) (simp_all add: strings_HasPrefix_def)

lemma contains_substring_shift: "contains_substring b sub \<Longrightarrow> contains_substring (a @ b) sub"
  by (induction a) simp_all

lemma contains_substring_mid: "contains_substring (a @ sub @ b) sub"
  by (intro contains_substring_shift contains_substring_prefix) (simp add: strings_HasPrefix_def)

lemma show_int_401: "show_int 401 = ''401''" and show_int_403: "show_int 403 = ''403''"
  by code_simp+

lemma isAuthError_status:
  "isAuthError (HTTPStatusError 401 msg)" "isAuthError (HTTPStatusError 403 msg)"
proof -
  have "contains_substring (''vault '' @ ''http 401'' @ ('': '' @ msg)) ''http 401''"
    by (rule contains_substring_mid)
  then show "isAuthError (HTTPStatusError 401 msg)"
    by (simp add: isAuthError_def show_int_401)
  have "contains_substring (''vault '' @ ''http 403'' @ ('': '' @ msg)) ''http 403''"
    by (rule contains_substring_mid)
  then show "isAuthError (HTTPStatusError 403 msg)"
    by (simp add: isAuthError_def show_int_403)
qed

lemma isAuthError_denied:
  assumes "contains_substring msg ''permission denied''"
  shows "isAuthError (HTTPStatusError code msg)"
proof -
  have "contains_substring ((''vault http '' @ show_int code @ '': '') @ msg) ''permission denied''"
    using assms by (rule contains_substring_shift)
  then show ?thesis by (simp add: isAuthError_def)
qed

lemma contains_substring_iff: "contains_substring s sub \<longleftrightarrow> (\<exists>a b. s = a @ sub @ b)"
proof
  assume "contains_substring s sub"
  then show "\<exists>a b. s = a @ sub @ b"
  proof (induction s)
    case Nil
    then show ?case by simp
  next
    case (Cons c cs)
    from Cons.prems have "strings_HasPrefix (c # cs) sub \<or> contains_substring cs sub"
      by simp
    then show ?case
    proof
      assume "strings_HasPrefix (c # cs) sub"
      then obtain rest where "c # cs = sub @ rest"
        by (auto simp: strings_HasPrefix_iff)
      then have "c # cs = [] @ sub @ rest" by simp
      then show ?thesis by blast
    next
      assume "contains_substring cs sub"
      with Cons.IH obtain a b where "cs = a @ sub @ b" by blast
      then have "c # cs = (c # a) @ sub @ b" by simp
      then show ?thesis by blast
    qed
  qed
next
  assume "\<exists>a b. s = a @ sub @ b"
  then show "contains_substring s sub"
    using contains_substring_mid by blast
qed

lemma show_digits_3:
  assumes "100 \<le> code" "code \<le> 999"
  shows "show_digits code = [digit_char (code div 100), digit_char (code div 10), digit_char code]"
proof -
  have a: "\<not> code < 10" "\<not> code div 10 < 10" "code div 10 div 10 < 10"
    using assms by simp_all
  have "code div 10 div 10 = code div 100" by simp
  then show ?thesis
    using a
    by (simp add: show_digits.simps [of code] show_digits.simps [of "code div 10"]
        show_digits.simps [of "code div 100"])
qed


lemma digit_char_eq:
  "digit_char n = CHR ''4'' \<longleftrightarrow> n mod 10 = 4"
  "digit_char n = CHR ''0'' \<longleftrightarrow> n mod 10 = 0"
  "digit_char n = CHR ''1'' \<longleftrightarrow> n mod 10 = 1"
  "digit_char n = CHR ''3'' \<longleftrightarrow> n mod 10 = 3"
proof -
  have "n mod 10 \<in> {0, 1, 2, 3, 4, 5, 6, 7, 8, 9}"
  proof -
    have "0 \<le> n mod 10" "n mod 10 < 10" by simp_all
    then show ?thesis by simp presburger
  qed
  then show "digit_char n = CHR ''4'' \<longleftrightarrow> n mod 10 = 4"
    "digit_char n = CHR ''0'' \<longleftrightarrow> n mod 10 = 0"
    "digit_char n = CHR ''1'' \<longleftrightarrow> n mod 10 = 1"
    "digit_char n = CHR ''3'' \<longleftrightarrow> n mod 10 = 3"
    by (auto simp: digit_char_def)
qed

lemma status_text:
  assumes "100 \<le> code" "code \<le> 999"
  shows "Error (HTTPStatusError code msg) =
     ''vault http '' @ [digit_char (code div 100), digit_char (code div 10), digit_char code]
       @ '': '' @ msg"
  using assms by (simp add: show_int_def show_digits_3)

lemma marker_in_status:
  "contains_substring (''vault http '' @ [a, b, c] @ '': '' @ msg) ''http 401''
     \<longleftrightarrow> [a, b, c] = ''401'' \<or> contains_substring msg ''http 401''"
  "contains_substring (''vault http '' @ [a, b, c] @ '': '' @ msg) ''http 403''
     \<longleftrightarrow> [a, b, c] = ''403'' \<or> contains_substring msg ''http 403''"
  "contains_substring (''vault http '' @ [a, b, c] @ '': '' @ msg) ''permission denied''
     \<longleftrightarrow> contains_substring msg ''permission denied''"
  by (auto simp: strings_HasPrefix_def)


lemma isAuthError_iff:
  "isAuthError err \<longleftrightarrow>
     (\<exists>a b. Error err = a @ ''permission denied'' @ b)
     \<or> (\<exists>a b. Error err = a @ ''http 403'' @ b)
     \<or> (\<exists>a b. Error err = a @ ''http 401'' @ b)"
  by (simp add: isAuthError_def Let_def contains_substring_iff)

lemma three_digits_value:
  fixes code :: int
  assumes "code div 100 mod 10 = x" "code div 10 mod 10 = y" "code mod 10 = z"
    and "100 \<le> code" "code \<le> 999"
  shows "code = 100 * x + 10 * y + z"
proof -
  have h: "code div 100 < 10" using assms(5) by simp
  have "0 \<le> code div 100" using assms(4) by simp
  with h have x: "code div 100 = x" using assms(1) by simp
  have "code div 10 = 10 * (code div 10 div 10) + code div 10 mod 10" by simp
  also have "code div 10 div 10 = code div 100" by simp
  finally have t: "code div 10 = 10 * x + y" using x assms(2) by simp
  have "code = 10 * (code div 10) + code mod 10" by simp
  with t assms(3) show ?thesis by simp
qed

lemma three_digits:
  assumes "100 \<le> code" "code \<le> 999"
  shows "[digit_char (code div 100), digit_char (code div 10), digit_char code] = ''401''
           \<longleftrightarrow> code = 401"
    and "[digit_char (code div 100), digit_char (code div 10), digit_char code] = ''403''
           \<longleftrightarrow> code = 403"
proof -
  have "code div 100 mod 10 = 4 \<and> code div 10 mod 10 = 0 \<and> code mod 10 = 1 \<longleftrightarrow> code = 401"
    using three_digits_value [of code 4 0 1] assms by auto
  then show "[digit_char (code div 100), digit_char (code div 10), digit_char code] = ''401''
           \<longleftrightarrow> code = 401"
    by (simp add: digit_char_eq)
  have "code div 100 mod 10 = 4 \<and> code div 10 mod 10 = 0 \<and> code mod 10 = 3 \<longleftrightarrow> code = 403"
    using three_digits_value [of code 4 0 3] assms by auto
  then show "[digit_char (code div 100), digit_char (code div 10), digit_char code] = ''403''
           \<longleftrightarrow> code = 403"
    by (simp add: digit_char_eq)
qed

lemma isAuthError_status_iff:
  assumes "100 \<le> code" "code \<le> 999"
  shows "isAuthError (HTTPStatusError code msg) \<longleftrightarrow>
     code = 401 \<or> code = 403
     \<or> (\<exists>a b. msg = a @ ''permission denied'' @ b)
     \<or> (\<exists>a b. msg = a @ ''http 403'' @ b)
     \<or> (\<exists>a b. msg = a @ ''http 401'' @ b)"
proof -
  let ?d = "[digit_char (code div 100), digit_char (code div 10), digit_char code]"
  have "isAuthError (HTTPStatusError code msg) \<longleftrightarrow>
      contains_substring (''vault http '' @ ?d @ '': '' @ msg) ''permission denied''
      \<or> contains_substring (''vault http '' @ ?d @ '': '' @ msg) ''http 403''
      \<or> contains_substring (''vault http '' @ ?d @ '': '' @ msg) ''http 401''"
    unfolding isAuthError_def Let_def status_text [OF assms] ..
  also have "\<dots> \<longleftrightarrow> contains_substring msg ''permission denied''
      \<or> (?d = ''403'' \<or> contains_substring msg ''http 403'')
      \<or> (?d = ''401'' \<or> contains_substring msg ''http 401'')"
    by (simp only: marker_in_status)
  also have "\<dots> \<longleftrightarrow> code = 401 \<or> code = 403
     \<or> (\<exists>a b. msg = a @ ''permission denied'' @ b)
     \<or> (\<exists>a b. msg = a @ ''http 403'' @ b)
     \<or> (\<exists>a b. msg = a @ ''http 401'' @ b)"
    unfolding three_digits [OF assms] contains_substring_iff by blast
  finally show ?thesis .
qed

text \<open>
  Claim C5, as amended. A call of \<open>Issue\<close> sends at most two issuance requests and at most
  two logins (first conjunct). When the first issuance request fails with an error that is
  not of the authentication class, or the role identifier or the secret identifier is
  missing, the error is returned at once. When it fails with an error of the authentication
  class and both credentials are there, the token is cleared and \<open>ensureToken\<close> logs in
  again, once: if that login fails its error is returned and no issuance request follows;
  if it succeeds exactly one more issuance request is made, and its outcome, an error
  included, is the outcome of the call (second conjunct). The errors of the statuses 401
  and 403 and those whose body reports \<open>permission denied\<close> are of the authentication class
  (third to fifth conjunct). The class is decided on the text of the error: an error is in
  it exactly when its text contains \<open>permission denied\<close>, \<open>http 403\<close> or \<open>http 401\<close> (sixth
  conjunct), so that the error of a three-digit status is in it exactly when the status is
  401 or 403 or the trimmed body contains one of the three texts (last conjunct): the
  error of any other status whose body contains none of them is outside the class and is
  returned at once.
\<close>

theorem Client_Issue_retries_once:
  "(Client_Issue L c sent pkiPath role req = ((c', sent'), res)
    \<longrightarrow> (\<exists>new. sent' = sent @ new \<and> issue_attempts new \<le> 2 \<and> login_attempts new \<le> 2))
   \<and> (Addr c \<noteq> [] \<and> pkiPath \<noteq> [] \<and> role \<noteq> []
       \<and> ensureToken L c sent = ((c1, sent1), None)
       \<and> doJSON L c1 sent1 ''POST'' (issue_endpoint L c1 pkiPath role) (IssuePayload req) True
           = (sent2, Inl err)
    \<longrightarrow> (\<not> (isAuthError err \<and> RoleID c1 \<noteq> [] \<and> SecretID c1 \<noteq> [])
          \<longrightarrow> Client_Issue L c sent pkiPath role req = ((c1, sent2), Inl err))
        \<and> (isAuthError err \<and> RoleID c1 \<noteq> [] \<and> SecretID c1 \<noteq> []
          \<longrightarrow> (\<forall>c3 sent3 e3.
                  ensureToken L (c1\<lparr>Token := []\<rparr>) sent2 = ((c3, sent3), Some e3)
                  \<longrightarrow> Client_Issue L c sent pkiPath role req = ((c3, sent3), Inl e3)
                      \<and> (\<exists>n. sent3 = sent2 @ n \<and> issue_attempts n = 0 \<and> login_attempts n \<le> 1))
              \<and> (\<forall>c3 sent3 sent4 r4.
                  ensureToken L (c1\<lparr>Token := []\<rparr>) sent2 = ((c3, sent3), None)
                  \<and> doJSON L c3 sent3 ''POST'' (issue_endpoint L c1 pkiPath role)
                        (IssuePayload req) True = (sent4, r4)
                  \<longrightarrow> Client_Issue L c sent pkiPath role req
                        = ((c3, sent4),
                           case r4 of Inl err2 \<Rightarrow> Inl err2 | Inr resp \<Rightarrow> decodeIssue L resp)
                      \<and> (\<exists>n. sent3 = sent2 @ n \<and> issue_attempts n = 0 \<and> login_attempts n \<le> 1)
                      \<and> (\<exists>n. sent4 = sent3 @ n \<and> issue_attempts n \<le> 1 \<and> login_attempts n = 0)
                      \<and> (sent2 \<noteq> sent1 \<longrightarrow> issue_attempts (drop (length sent1) sent4) = 2))))
   \<and> isAuthError (HTTPStatusError 401 msg) \<and> isAuthError (HTTPStatusError 403 msg)
   \<and> (contains_substring msg ''permission denied'' \<longrightarrow> isAuthError (HTTPStatusError code msg))
   \<and> (isAuthError err' \<longleftrightarrow>
        (\<exists>a b. Error err' = a @ ''permission denied'' @ b)
        \<or> (\<exists>a b. Error err' = a @ ''http 403'' @ b)
        \<or> (\<exists>a b. Error err' = a @ ''http 401'' @ b))
   \<and> (100 \<le> status \<and> status \<le> 999
      \<longrightarrow> (isAuthError (HTTPStatusError status body) \<longleftrightarrow>
            status = 401 \<or> status = 403
            \<or> (\<exists>a b. body = a @ ''permission denied'' @ b)
            \<or> (\<exists>a b. body = a @ ''http 403'' @ b)
            \<or> (\<exists>a b. body = a @ ''http 401'' @ b)))"
proof (intro conjI impI allI)
  assume "Client_Issue L c sent pkiPath role req = ((c', sent'), res)"
  then show "\<exists>new. sent' = sent @ new \<and> issue_attempts new \<le> 2 \<and> login_attempts new \<le> 2"
    by (rule Client_Issue_sent)
next
  assume a: "Addr c \<noteq> [] \<and> pkiPath \<noteq> [] \<and> role \<noteq> []
       \<and> ensureToken L c sent = ((c1, sent1), None)
       \<and> doJSON L c1 sent1 ''POST'' (issue_endpoint L c1 pkiPath role) (IssuePayload req) True
           = (sent2, Inl err)"
    and n: "\<not> (isAuthError err \<and> RoleID c1 \<noteq> [] \<and> SecretID c1 \<noteq> [])"
  from a have pre: "Addr c \<noteq> []" "pkiPath \<noteq> []" "role \<noteq> []"
    and ok: "ensureToken L c sent = ((c1, sent1), None)" by simp_all
  show "Client_Issue L c sent pkiPath role req = ((c1, sent2), Inl err)"
    using a n by (auto simp: Client_Issue_preamble [OF pre ok])
next
  fix c3 sent3 e3
  assume a: "Addr c \<noteq> [] \<and> pkiPath \<noteq> [] \<and> role \<noteq> []
       \<and> ensureToken L c sent = ((c1, sent1), None)
       \<and> doJSON L c1 sent1 ''POST'' (issue_endpoint L c1 pkiPath role) (IssuePayload req) True
           = (sent2, Inl err)"
    and y: "isAuthError err \<and> RoleID c1 \<noteq> [] \<and> SecretID c1 \<noteq> []"
    and e: "ensureToken L (c1\<lparr>Token := []\<rparr>) sent2 = ((c3, sent3), Some e3)"
  from a have pre: "Addr c \<noteq> []" "pkiPath \<noteq> []" "role \<noteq> []"
    and ok: "ensureToken L c sent = ((c1, sent1), None)" by simp_all
  show "Client_Issue L c sent pkiPath role req = ((c3, sent3), Inl e3)"
    using a y e by (simp add: Client_Issue_preamble [OF pre ok])
  from ensureToken_sent [OF e]
  show "\<exists>n. sent3 = sent2 @ n \<and> issue_attempts n = 0 \<and> login_attempts n \<le> 1"
    by blast
next
  fix c3 sent3 sent4 r4
  assume a: "Addr c \<noteq> [] \<and> pkiPath \<noteq> [] \<and> role \<noteq> []
       \<and> ensureToken L c sent = ((c1, sent1), None)
       \<and> doJSON L c1 sent1 ''POST'' (issue_endpoint L c1 pkiPath role) (IssuePayload req) True
           = (sent2, Inl err)"
    and y: "isAuthError err \<and> RoleID c1 \<noteq> [] \<and> SecretID c1 \<noteq> []"
    and e: "ensureToken L (c1\<lparr>Token := []\<rparr>) sent2 = ((c3, sent3), None)
            \<and> doJSON L c3 sent3 ''POST'' (issue_endpoint L c1 pkiPath role)
                  (IssuePayload req) True = (sent4, r4)"
  from a have pre: "Addr c \<noteq> []" "pkiPath \<noteq> []" "role \<noteq> []"
    and ok: "ensureToken L c sent = ((c1, sent1), None)"
    and d2: "doJSON L c1 sent1 ''POST'' (issue_endpoint L c1 pkiPath role) (IssuePayload req) True
           = (sent2, Inl err)" by simp_all
  from e have e3: "ensureToken L (c1\<lparr>Token := []\<rparr>) sent2 = ((c3, sent3), None)"
    and d4: "doJSON L c3 sent3 ''POST'' (issue_endpoint L c1 pkiPath role)
                  (IssuePayload req) True = (sent4, r4)" by simp_all
  show "Client_Issue L c sent pkiPath role req
          = ((c3, sent4), case r4 of Inl err2 \<Rightarrow> Inl err2 | Inr resp \<Rightarrow> decodeIssue L resp)"
    using y by (simp add: Client_Issue_preamble [OF pre ok] d2 e3 d4 split: sum.splits)
  from ensureToken_sent [OF e3]
  obtain n3 where n3: "sent3 = sent2 @ n3" "issue_attempts n3 = 0" "login_attempts n3 \<le> 1"
    by blast
  then show "\<exists>n. sent3 = sent2 @ n \<and> issue_attempts n = 0 \<and> login_attempts n \<le> 1"
    by blast
  from doJSON_issue_new [OF d4]
  show "\<exists>n. sent4 = sent3 @ n \<and> issue_attempts n \<le> 1 \<and> login_attempts n = 0"
    by blast
  show "issue_attempts (drop (length sent1) sent4) = 2" if ne: "sent2 \<noteq> sent1"
  proof -
    let ?u = "issue_endpoint L c1 pkiPath role"
    from doJSON_sent [OF d2] ne obtain q where q: "sent2 = sent1 @ [q]" "is_issue_request q"
      by auto
    have nr: "http_NewRequest L ''POST'' ?u = None"
      using d2 ne by (auto simp: doJSON_def split: option.splits)
    have tk: "Token c3 \<noteq> []"
      using ensureToken_ok_token [OF e3] .
    from doJSON_auth_token [OF nr tk, of sent3 "IssuePayload req"] d4
    obtain q' where q': "sent4 = sent3 @ [q']" "is_issue_request q'"
      by auto
    have "drop (length sent1) sent4 = [q] @ n3 @ [q']"
      using q q' n3 by simp
    moreover have "issue_attempts ([q] @ n3 @ [q'])
        = issue_attempts [q] + (issue_attempts n3 + issue_attempts [q'])"
      by (simp only: issue_attempts_simps(2))
    moreover have "issue_attempts [q] = 1" "issue_attempts [q'] = 1"
      using q(2) q'(2) by (simp_all only: issue_attempts_simps(3) if_True)
    ultimately show ?thesis
      using n3(2) by simp
  qed
next
  show "isAuthError (HTTPStatusError 401 msg)" "isAuthError (HTTPStatusError 403 msg)"
    by (rule isAuthError_status)+
next
  assume "contains_substring msg ''permission denied''"
  then show "isAuthError (HTTPStatusError code msg)"
    by (rule isAuthError_denied)
next
  show "isAuthError err' \<longleftrightarrow>
        (\<exists>a b. Error err' = a @ ''permission denied'' @ b)
        \<or> (\<exists>a b. Error err' = a @ ''http 403'' @ b)
        \<or> (\<exists>a b. Error err' = a @ ''http 401'' @ b)"
    by (rule isAuthError_iff)
next
  assume "100 \<le> status \<and> status \<le> 999"
  then show "isAuthError (HTTPStatusError status body) \<longleftrightarrow>
            status = 401 \<or> status = 403
            \<or> (\<exists>a b. body = a @ ''permission denied'' @ b)
            \<or> (\<exists>a b. body = a @ ''http 403'' @ b)
            \<or> (\<exists>a b. body = a @ ''http 401'' @ b)"
    by (intro isAuthError_status_iff) simp_all
qed


theorem Client_Issue_retries_once_witness:
  "Client_Issue (test_library (test_server ''token=good'' ''leaf+key'')) (approle_client ''bad'') []
      ''pki'' ''role'' svc_request
     = ((approle_client ''good'',
         [issue_http_request ''bad'', login_request, issue_http_request ''good'']),
        Inr leaf_key_response)
   \<and> issue_attempts [issue_http_request ''bad'', login_request, issue_http_request ''good''] = 2
   \<and> login_attempts [issue_http_request ''bad'', login_request, issue_http_request ''good''] = 1
   \<and> Client_Issue (test_library (test_server ''token=good'' ''leaf+key'')) (token_client ''bad'') []
      ''pki'' ''role'' svc_request
     = ((token_client ''bad'', [issue_http_request ''bad'']),
        Inl (HTTPStatusError 403 ''permission denied''))
   \<and> \<not> isAuthError (HTTPStatusError 500 ''internal error'')
   \<and> Client_Issue (test_library (status_server 500 ''internal error'')) (approle_client ''bad'') []
      ''pki'' ''role'' svc_request
     = ((approle_client ''bad'', [issue_http_request ''bad'']),
        Inl (HTTPStatusError 500 ''internal error''))
   \<and> issue_attempts [issue_http_request ''bad''] = 1
   \<and> isAuthError (HTTPStatusError 500 ''upstream said http 403'')
   \<and> isAuthError (LibraryError ''remote error: permission denied'')
   \<and> \<not> isAuthError (LibraryError ''connection refused'')"
proof -
  let ?L = "test_library (test_server ''token=good'' ''leaf+key'')"
  let ?S = "test_library (status_server 500 ''internal error'')"
  let ?w = "issue_endpoint ?S (approle_client ''bad'') ''pki'' ''role''"
  let ?i = "HTTPStatusError 500 ''internal error''"
  let ?u = "issue_endpoint ?L (approle_client ''bad'') ''pki'' ''role''"
  let ?v = "issue_endpoint ?L (token_client ''bad'') ''pki'' ''role''"
  let ?e = "HTTPStatusError 403 ''permission denied''"
  note T = Client_Issue_retries_once [where L = ?L and sent = "[]" and pkiPath = "''pki''"
      and role = "''role''" and req = svc_request and ?sent1.0 = "[]"
      and ?sent2.0 = "[issue_http_request ''bad'']" and err = ?e]
  have pre: "Addr (approle_client ''bad'') \<noteq> [] \<and> ''pki'' \<noteq> [] \<and> ''role'' \<noteq> []"
    "Addr (token_client ''bad'') \<noteq> [] \<and> ''pki'' \<noteq> [] \<and> ''role'' \<noteq> []"
    by (simp_all add: approle_client_def token_client_def)
  have e1: "ensureToken ?L (approle_client ''bad'') [] = ((approle_client ''bad'', []), None)"
    "ensureToken ?L (token_client ''bad'') [] = ((token_client ''bad'', []), None)"
    by code_simp+
  have d2: "doJSON ?L (approle_client ''bad'') [] ''POST'' ?u (IssuePayload svc_request) True
      = ([issue_http_request ''bad''], Inl ?e)"
    "doJSON ?L (token_client ''bad'') [] ''POST'' ?v (IssuePayload svc_request) True
      = ([issue_http_request ''bad''], Inl ?e)"
    by code_simp+
  have au: "isAuthError ?e \<and> RoleID (approle_client ''bad'') \<noteq> []
      \<and> SecretID (approle_client ''bad'') \<noteq> []"
    by code_simp
  have nc: "\<not> (isAuthError ?e \<and> RoleID (token_client ''bad'') \<noteq> []
      \<and> SecretID (token_client ''bad'') \<noteq> [])"
    by code_simp
  have e3: "ensureToken ?L ((approle_client ''bad'')\<lparr>Token := []\<rparr>) [issue_http_request ''bad'']
      = ((approle_client ''good'', [issue_http_request ''bad'', login_request]), None)"
    by code_simp
  have d4: "doJSON ?L (approle_client ''good'') [issue_http_request ''bad'', login_request] ''POST'' ?u
        (IssuePayload svc_request) True
      = ([issue_http_request ''bad'', login_request, issue_http_request ''good''],
         Inr \<lparr>StatusCode = 200, Body = ''leaf+key''\<rparr>)"
    by code_simp
  have dec: "decodeIssue ?L \<lparr>StatusCode = 200, Body = ''leaf+key''\<rparr> = Inr leaf_key_response"
    by code_simp
  have 1: "Client_Issue ?L (approle_client ''bad'') [] ''pki'' ''role'' svc_request
     = ((approle_client ''good'',
         [issue_http_request ''bad'', login_request, issue_http_request ''good'']),
        Inr leaf_key_response)"
    using T [where c = "approle_client ''bad''" and ?c1.0 = "approle_client ''bad''"]
      pre(1) e1(1) d2(1) au e3 d4 dec
    by simp
  have 2: "Client_Issue ?L (token_client ''bad'') [] ''pki'' ''role'' svc_request
     = ((token_client ''bad'', [issue_http_request ''bad'']), Inl ?e)"
    using T [where c = "token_client ''bad''" and ?c1.0 = "token_client ''bad''"]
      pre(2) e1(2) d2(2) nc
    by simp
  have 3: "issue_attempts [issue_http_request ''bad'', login_request, issue_http_request ''good''] = 2"
    "login_attempts [issue_http_request ''bad'', login_request, issue_http_request ''good''] = 1"
    "issue_attempts [issue_http_request ''bad''] = 1"
    by code_simp+
  note U = Client_Issue_retries_once [where L = ?S and c = "approle_client ''bad''"
      and sent = "[]" and pkiPath = "''pki''" and role = "''role''" and req = svc_request
      and ?c1.0 = "approle_client ''bad''" and ?sent1.0 = "[]"
      and ?sent2.0 = "[issue_http_request ''bad'']" and err = ?i
      and status = 500 and body = "''internal error''"]
  have none: "\<not> contains_substring ''internal error'' ''permission denied''"
    "\<not> contains_substring ''internal error'' ''http 403''"
    "\<not> contains_substring ''internal error'' ''http 401''"
    by code_simp+
  have none': "\<not> (\<exists>a b. ''internal error'' = a @ ''permission denied'' @ b)"
    "\<not> (\<exists>a b. ''internal error'' = a @ ''http 403'' @ b)"
    "\<not> (\<exists>a b. ''internal error'' = a @ ''http 401'' @ b)"
    using none by (simp_all only: contains_substring_iff not_False_eq_True)
  have st: "(100::int) \<le> 500 \<and> (500::int) \<le> 999" "(500::int) \<noteq> 401" "(500::int) \<noteq> 403"
    by simp_all
  have 4: "\<not> isAuthError ?i"
    using U [THEN conjunct2, THEN conjunct2, THEN conjunct2, THEN conjunct2, THEN conjunct2,
        THEN conjunct2] st none'
    by blast
  have e5: "ensureToken ?S (approle_client ''bad'') [] = ((approle_client ''bad'', []), None)"
    by code_simp
  have d5: "doJSON ?S (approle_client ''bad'') [] ''POST'' ?w (IssuePayload svc_request) True
      = ([issue_http_request ''bad''], Inl ?i)"
    by code_simp
  have 5: "Client_Issue ?S (approle_client ''bad'') [] ''pki'' ''role'' svc_request
     = ((approle_client ''bad'', [issue_http_request ''bad'']), Inl ?i)"
    using U pre(1) e5 d5 4 by simp
  have t6: "Error (HTTPStatusError 500 ''upstream said http 403'')
      = ''vault http 500: '' @ ''http 403'' @ []
        \<or> Error (HTTPStatusError 500 ''upstream said http 403'')
      = ''vault http 500: upstream said '' @ ''http 403'' @ []"
    by code_simp
  have 6: "isAuthError (HTTPStatusError 500 ''upstream said http 403'')"
    using Client_Issue_retries_once
      [where err' = "HTTPStatusError 500 ''upstream said http 403''", THEN conjunct2,
        THEN conjunct2, THEN conjunct2, THEN conjunct2, THEN conjunct2, THEN conjunct1] t6
    by blast
  have t7: "Error (LibraryError ''remote error: permission denied'')
      = ''remote error: '' @ ''permission denied'' @ []"
    by code_simp
  have 7: "isAuthError (LibraryError ''remote error: permission denied'')"
    using Client_Issue_retries_once
      [where err' = "LibraryError ''remote error: permission denied''", THEN conjunct2,
        THEN conjunct2, THEN conjunct2, THEN conjunct2, THEN conjunct2, THEN conjunct1] t7
    by blast
  have t8: "Error (LibraryError ''connection refused'') = ''connection refused''"
    "\<not> contains_substring ''connection refused'' ''permission denied''"
    "\<not> contains_substring ''connection refused'' ''http 403''"
    "\<not> contains_substring ''connection refused'' ''http 401''"
    by code_simp+
  have t8': "\<not> (\<exists>a b. ''connection refused'' = a @ ''permission denied'' @ b)"
    "\<not> (\<exists>a b. ''connection refused'' = a @ ''http 403'' @ b)"
    "\<not> (\<exists>a b. ''connection refused'' = a @ ''http 401'' @ b)"
    using t8(2-4) by (simp_all only: contains_substring_iff not_False_eq_True)
  have 8: "\<not> isAuthError (LibraryError ''connection refused'')"
    using Client_Issue_retries_once
      [where err' = "LibraryError ''connection refused''", THEN conjunct2,
        THEN conjunct2, THEN conjunct2, THEN conjunct2, THEN conjunct2, THEN conjunct1]
    unfolding t8(1) using t8'
    by blast
  from 1 2 3 4 5 6 7 8 show ?thesis by simp
qed

text \<open>
  The claim as it is worded fails in two ways. First, the retry depends on the login: the
  first issuance request fails with status 403, both credentials are configured, the login
  that follows fails with status 500, and the call returns that error after one issuance
  request, without the second one. Second, the class of errors that are retried is wider
  than the statuses 401 and 403 and the bodies that report \<open>permission denied\<close>: the
  first issuance request fails with status 500 and a body that mentions \<open>http 403\<close>, and
  the call logs in again and sends a second issuance request.
\<close>

theorem Client_Issue_no_retry_counterexample:
  "(doJSON (test_library (test_server [] ''leaf+key'')) (approle_client ''bad'') [] ''POST''
      (issue_endpoint (test_library (test_server [] ''leaf+key'')) (approle_client ''bad'')
         ''pki'' ''role'')
      (IssuePayload svc_request) True
     = ([issue_http_request ''bad''], Inl (HTTPStatusError 403 ''permission denied''))
   \<and> isAuthError (HTTPStatusError 403 ''permission denied'')
   \<and> RoleID (approle_client ''bad'') \<noteq> [] \<and> SecretID (approle_client ''bad'') \<noteq> []
   \<and> Client_Issue (test_library (test_server [] ''leaf+key'')) (approle_client ''bad'') []
        ''pki'' ''role'' svc_request
     = ((approle_client [], [issue_http_request ''bad'', login_request]),
        Inl (HTTPStatusError 500 ''login down''))
   \<and> issue_attempts [issue_http_request ''bad'', login_request] = 1)
   \<and> (doJSON (test_library (status_server 500 ''upstream said http 403''))
        (approle_client ''bad'') [] ''POST''
        (issue_endpoint (test_library (status_server 500 ''upstream said http 403''))
           (approle_client ''bad'') ''pki'' ''role'')
        (IssuePayload svc_request) True
       = ([issue_http_request ''bad''], Inl (HTTPStatusError 500 ''upstream said http 403''))
     \<and> (500::int) \<noteq> 401 \<and> (500::int) \<noteq> 403
     \<and> \<not> contains_substring ''upstream said http 403'' ''permission denied''
     \<and> Error (HTTPStatusError 500 ''upstream said http 403'')
         = ''vault http 500: upstream said http 403''
     \<and> Client_Issue (test_library (status_server 500 ''upstream said http 403''))
          (approle_client ''bad'') [] ''pki'' ''role'' svc_request
       = ((approle_client ''good'',
           [issue_http_request ''bad'', login_request, issue_http_request ''good'']),
          Inl (HTTPStatusError 500 ''upstream said http 403''))
     \<and> issue_attempts
          [issue_http_request ''bad'', login_request, issue_http_request ''good''] = 2)"
  by code_simp

section \<open>Properties of the PKI issuer\<close>

lemma append_chain_all:
  "append_chain L pool chain =
     (if list_all (AppendCertsFromPEM L) chain then Some (pool @ chain) else None)"
  by (induction chain arbitrary: pool) simp_all

lemma Issuer_Issue_build:
  assumes "Client i = Some c"
    and "Client_Issue L c sent (PKIPath i) (Role i) (issue_request L i) = ((c1, sent1), Inr resp)"
  shows "Issuer_Issue L i sent =
     ((i\<lparr>Client := Some c1\<rparr>, sent1),
      (case tls_X509KeyPair L (resp_Certificate resp) (resp_PrivateKey resp) of
         Inl e \<Rightarrow> Inl e
       | Inr cert \<Rightarrow>
           (if \<not> list_all (AppendCertsFromPEM L) (trust_material resp)
            then Inl (ErrorsNew (if CAChain resp \<noteq> [] then ''vault ca_chain contained invalid PEM''
                                 else ''vault issuing_ca contained invalid PEM''))
            else if RequireCA i \<and> trust_material resp = []
            then Inl (ErrorsNew ''vault issue response missing ca_chain/issuing_ca'')
            else (case parseNotAfter L (resp_Certificate resp) of
                    Inl e \<Rightarrow> Inl e
                  | Inr notAfter \<Rightarrow>
                      Inr \<lparr>Cert = Some cert, CA = trust_material resp, NotAfter = notAfter\<rparr>))))"
  using assms
  by (auto simp: Issuer_Issue_def append_chain_all trust_material_def Let_def
      split: sum.splits)

lemma Issuer_Issue_ok_cases:
  assumes "Issuer_Issue L i sent = (s, Inr b)"
  shows "\<exists>c c1 sent1 resp cert.
      Client i = Some c
      \<and> Client_Issue L c sent (PKIPath i) (Role i) (issue_request L i) = ((c1, sent1), Inr resp)
      \<and> s = (i\<lparr>Client := Some c1\<rparr>, sent1)
      \<and> tls_X509KeyPair L (resp_Certificate resp) (resp_PrivateKey resp) = Inr cert
      \<and> parseNotAfter L (resp_Certificate resp) = Inr (NotAfter b)
      \<and> b = \<lparr>Cert = Some cert, CA = trust_material resp, NotAfter = NotAfter b\<rparr>"
proof -
  from assms obtain c where c: "Client i = Some c"
    by (cases "Client i") (auto simp: Issuer_Issue_def)
  obtain c1 sent1 r where r: "Client_Issue L c sent (PKIPath i) (Role i) (issue_request L i) = ((c1, sent1), r)"
    by (metis surj_pair)
  from assms c r obtain resp where resp: "r = Inr resp"
    by (cases r) (auto simp: Issuer_Issue_def)
  from assms show ?thesis
    using c r resp
    by (auto simp: Issuer_Issue_build [OF c r [unfolded resp]] split: sum.splits if_splits)
qed


text \<open>
  Claim C6. For a response that the client returned: the pool of the bundle is the trust
  material of the response, that is every \<open>ca_chain\<close> entry, or the \<open>issuing_ca\<close> only when
  the chain is empty (first conjunct, with the key pair and the expiry parsed, every entry
  read accepted by \<open>AppendCertsFromPEM\<close>, and not both \<open>RequireCA\<close> set and no material).
  With \<open>RequireCA\<close> set and neither chain nor issuing CA the call fails, with the error
  \<open>vault issue response missing ca_chain/issuing_ca\<close> once the key pair was read (second
  conjunct); with \<open>RequireCA\<close> unset the same response gives a bundle with an empty pool
  (third conjunct). When an entry of the material read gives no certificate the call
  fails and no bundle is returned (fourth conjunct).
\<close>

theorem Issue_builds_trust_pool:
  "Client i = Some c
   \<and> Client_Issue L c sent (PKIPath i) (Role i) (issue_request L i) = ((c1, sent1), Inr resp)
   \<longrightarrow> (tls_X509KeyPair L (resp_Certificate resp) (resp_PrivateKey resp) = Inr cert
        \<and> parseNotAfter L (resp_Certificate resp) = Inr na
        \<and> list_all (AppendCertsFromPEM L) (trust_material resp)
        \<and> \<not> (RequireCA i \<and> trust_material resp = [])
        \<longrightarrow> snd (Issuer_Issue L i sent)
            = Inr \<lparr>Cert = Some cert, CA = trust_material resp, NotAfter = na\<rparr>)
     \<and> (RequireCA i \<and> CAChain resp = [] \<and> IssuingCA resp = []
        \<longrightarrow> (\<exists>e. snd (Issuer_Issue L i sent) = Inl e)
            \<and> (tls_X509KeyPair L (resp_Certificate resp) (resp_PrivateKey resp) = Inr cert
                \<longrightarrow> snd (Issuer_Issue L i sent)
                    = Inl (ErrorsNew ''vault issue response missing ca_chain/issuing_ca'')))
     \<and> (\<not> RequireCA i \<and> CAChain resp = [] \<and> IssuingCA resp = []
         \<and> tls_X509KeyPair L (resp_Certificate resp) (resp_PrivateKey resp) = Inr cert
         \<and> parseNotAfter L (resp_Certificate resp) = Inr na
        \<longrightarrow> snd (Issuer_Issue L i sent) = Inr \<lparr>Cert = Some cert, CA = [], NotAfter = na\<rparr>)
     \<and> (\<not> list_all (AppendCertsFromPEM L) (trust_material resp)
        \<longrightarrow> (\<exists>e. snd (Issuer_Issue L i sent) = Inl e))"
proof (intro impI)
  assume "Client i = Some c
   \<and> Client_Issue L c sent (PKIPath i) (Role i) (issue_request L i) = ((c1, sent1), Inr resp)"
  then have c: "Client i = Some c"
    and r: "Client_Issue L c sent (PKIPath i) (Role i) (issue_request L i) = ((c1, sent1), Inr resp)"
    by simp_all
  note B = Issuer_Issue_build [OF c r]
  show "(tls_X509KeyPair L (resp_Certificate resp) (resp_PrivateKey resp) = Inr cert
        \<and> parseNotAfter L (resp_Certificate resp) = Inr na
        \<and> list_all (AppendCertsFromPEM L) (trust_material resp)
        \<and> \<not> (RequireCA i \<and> trust_material resp = [])
        \<longrightarrow> snd (Issuer_Issue L i sent)
            = Inr \<lparr>Cert = Some cert, CA = trust_material resp, NotAfter = na\<rparr>)
     \<and> (RequireCA i \<and> CAChain resp = [] \<and> IssuingCA resp = []
        \<longrightarrow> (\<exists>e. snd (Issuer_Issue L i sent) = Inl e)
            \<and> (tls_X509KeyPair L (resp_Certificate resp) (resp_PrivateKey resp) = Inr cert
                \<longrightarrow> snd (Issuer_Issue L i sent)
                    = Inl (ErrorsNew ''vault issue response missing ca_chain/issuing_ca'')))
     \<and> (\<not> RequireCA i \<and> CAChain resp = [] \<and> IssuingCA resp = []
         \<and> tls_X509KeyPair L (resp_Certificate resp) (resp_PrivateKey resp) = Inr cert
         \<and> parseNotAfter L (resp_Certificate resp) = Inr na
        \<longrightarrow> snd (Issuer_Issue L i sent) = Inr \<lparr>Cert = Some cert, CA = [], NotAfter = na\<rparr>)
     \<and> (\<not> list_all (AppendCertsFromPEM L) (trust_material resp)
        \<longrightarrow> (\<exists>e. snd (Issuer_Issue L i sent) = Inl e))"
  proof (intro conjI impI)
    assume "tls_X509KeyPair L (resp_Certificate resp) (resp_PrivateKey resp) = Inr cert
        \<and> parseNotAfter L (resp_Certificate resp) = Inr na
        \<and> list_all (AppendCertsFromPEM L) (trust_material resp)
        \<and> \<not> (RequireCA i \<and> trust_material resp = [])"
    then show "snd (Issuer_Issue L i sent)
            = Inr \<lparr>Cert = Some cert, CA = trust_material resp, NotAfter = na\<rparr>"
      by (auto simp: B)
  next
    assume a: "RequireCA i \<and> CAChain resp = [] \<and> IssuingCA resp = []"
    then have t: "trust_material resp = []" by (simp add: trust_material_def)
    show "\<exists>e. snd (Issuer_Issue L i sent) = Inl e"
      using a t by (simp add: B split: sum.splits)
    show "snd (Issuer_Issue L i sent)
        = Inl (ErrorsNew ''vault issue response missing ca_chain/issuing_ca'')"
      if "tls_X509KeyPair L (resp_Certificate resp) (resp_PrivateKey resp) = Inr cert"
      using a t that by (simp add: B)
  next
    assume a: "\<not> RequireCA i \<and> CAChain resp = [] \<and> IssuingCA resp = []
         \<and> tls_X509KeyPair L (resp_Certificate resp) (resp_PrivateKey resp) = Inr cert
         \<and> parseNotAfter L (resp_Certificate resp) = Inr na"
    then have t: "trust_material resp = []" by (simp add: trust_material_def)
    show "snd (Issuer_Issue L i sent) = Inr \<lparr>Cert = Some cert, CA = [], NotAfter = na\<rparr>"
      using a t by (simp add: B)
  next
    assume "\<not> list_all (AppendCertsFromPEM L) (trust_material resp)"
    then show "\<exists>e. snd (Issuer_Issue L i sent) = Inl e"
      by (simp add: B split: sum.splits)
  qed
qed

theorem Issue_builds_trust_pool_witness:
  "snd (Issuer_Issue (test_library (test_server ''token=good'' ''leaf+key+issuing_ca''))
         (test_issuer 0 False) []) = Inr (test_bundle [''CA PEM''])
   \<and> snd (Issuer_Issue (test_library (test_server ''token=good'' ''leaf+key+ca_chain''))
         (test_issuer 0 True) []) = Inr (test_bundle [''CA PEM'', ''ROOT PEM''])
   \<and> snd (Issuer_Issue (test_library (test_server ''token=good'' ''leaf+key''))
         (test_issuer 0 True) [])
       = Inl (ErrorsNew ''vault issue response missing ca_chain/issuing_ca'')
   \<and> snd (Issuer_Issue (test_library (test_server ''token=good'' ''leaf+key''))
         (test_issuer 0 False) []) = Inr (test_bundle [])
   \<and> snd (Issuer_Issue (test_library (test_server ''token=good'' ''leaf+key+bad_issuing_ca''))
         (test_issuer 0 False) [])
       = Inl (ErrorsNew ''vault issuing_ca contained invalid PEM'')
   \<and> snd (Issuer_Issue (test_library (test_server ''token=good'' ''leaf+key+bad_ca_chain''))
         (test_issuer 0 False) [])
       = Inl (ErrorsNew ''vault ca_chain contained invalid PEM'')"
proof -
  let ?c = "token_client ''good''"
  let ?A = "test_library (test_server ''token=good'' ''leaf+key+issuing_ca'')"
  let ?B = "test_library (test_server ''token=good'' ''leaf+key+ca_chain'')"
  let ?N = "test_library (test_server ''token=good'' ''leaf+key'')"
  let ?ra = "\<lparr>resp_Certificate = ''LEAF PEM'', resp_PrivateKey = ''KEY PEM'',
              CAChain = [], IssuingCA = ''CA PEM''\<rparr>"
  let ?rb = "\<lparr>resp_Certificate = ''LEAF PEM'', resp_PrivateKey = ''KEY PEM'',
              CAChain = [''CA PEM'', ''ROOT PEM''], IssuingCA = ''OTHER CA PEM''\<rparr>"
  let ?CA = "\<lambda>L i. Client_Issue L ?c [] (PKIPath i) (Role i) (issue_request L i)"
  have cl: "Client (test_issuer 0 rq) = Some ?c" for rq
    by (simp add: test_issuer_def)
  have ca: "snd (?CA ?A (test_issuer 0 False)) = Inr ?ra"
    and cb: "snd (?CA ?B (test_issuer 0 True)) = Inr ?rb"
    and cn: "snd (?CA ?N (test_issuer 0 rq)) = Inr leaf_key_response" for rq
    by (cases rq; code_simp)+
  obtain a1 a2 where ia: "?CA ?A (test_issuer 0 False) = ((a1, a2), Inr ?ra)"
    using ca by (metis prod.collapse)
  obtain b1 b2 where ib: "?CA ?B (test_issuer 0 True) = ((b1, b2), Inr ?rb)"
    using cb by (metis prod.collapse)
  obtain t1 t2 where it: "?CA ?N (test_issuer 0 True) = ((t1, t2), Inr leaf_key_response)"
    using cn [of True] by (metis prod.collapse)
  obtain f1 f2 where "if": "?CA ?N (test_issuer 0 False) = ((f1, f2), Inr leaf_key_response)"
    using cn [of False] by (metis prod.collapse)
  have kp: "tls_X509KeyPair L ''LEAF PEM'' ''KEY PEM'' = Inr test_leaf"
    and pn: "parseNotAfter L ''LEAF PEM'' = Inr (3600 * Second)"
    if "L = ?A \<or> L = ?B \<or> L = ?N" for L
    using that by (auto simp: test_library_def test_leaf_def parseNotAfter_def)
  have ap: "AppendCertsFromPEM L ''CA PEM''" "AppendCertsFromPEM L ''ROOT PEM''"
    if "L = ?A \<or> L = ?B \<or> L = ?N" for L
    using that by (auto simp: test_library_def)
  have 1: "snd (Issuer_Issue ?A (test_issuer 0 False) []) = Inr (test_bundle [''CA PEM''])"
    using Issue_builds_trust_pool [where L = ?A and i = "test_issuer 0 False" and c = ?c
        and sent = "[]" and ?c1.0 = a1
        and ?sent1.0 = a2 and resp = ?ra
        and cert = test_leaf and na = "3600 * Second"]
      cl ia kp [of ?A] pn [of ?A] ap [of ?A]
    by (simp add: trust_material_def test_bundle_def)
  have 2: "snd (Issuer_Issue ?B (test_issuer 0 True) []) = Inr (test_bundle [''CA PEM'', ''ROOT PEM''])"
    using Issue_builds_trust_pool [where L = ?B and i = "test_issuer 0 True" and c = ?c
        and sent = "[]" and ?c1.0 = b1
        and ?sent1.0 = b2 and resp = ?rb
        and cert = test_leaf and na = "3600 * Second"]
      cl ib kp [of ?B] pn [of ?B] ap [of ?B]
    by (simp add: trust_material_def test_bundle_def)
  have rq: "RequireCA (test_issuer 0 True)" "\<not> RequireCA (test_issuer 0 False)"
    by (simp_all add: test_issuer_def)
  have 3: "snd (Issuer_Issue ?N (test_issuer 0 True) [])
       = Inl (ErrorsNew ''vault issue response missing ca_chain/issuing_ca'')"
    using Issue_builds_trust_pool [where L = ?N and i = "test_issuer 0 True" and c = ?c
        and sent = "[]" and ?c1.0 = t1
        and ?sent1.0 = t2 and resp = leaf_key_response
        and cert = test_leaf and na = "3600 * Second"]
      cl it kp [of ?N] rq
    by (simp add: leaf_key_response_def)
  have 4: "snd (Issuer_Issue ?N (test_issuer 0 False) []) = Inr (test_bundle [])"
    using Issue_builds_trust_pool [where L = ?N and i = "test_issuer 0 False" and c = ?c
        and sent = "[]" and ?c1.0 = f1
        and ?sent1.0 = f2 and resp = leaf_key_response
        and cert = test_leaf and na = "3600 * Second"]
      cl "if" kp [of ?N] pn [of ?N] rq
    by (simp add: leaf_key_response_def test_bundle_def)
  have 5: "snd (Issuer_Issue (test_library (test_server ''token=good'' ''leaf+key+bad_issuing_ca''))
         (test_issuer 0 False) [])
       = Inl (ErrorsNew ''vault issuing_ca contained invalid PEM'')"
    and 6: "snd (Issuer_Issue (test_library (test_server ''token=good'' ''leaf+key+bad_ca_chain''))
         (test_issuer 0 False) [])
       = Inl (ErrorsNew ''vault ca_chain contained invalid PEM'')"
    by code_simp+
  from 1 2 3 4 5 6 show ?thesis by simp
qed

lemma parseNotAfter_iff:
  "parseNotAfter L pem = Inr t \<longleftrightarrow>
     (\<exists>bytes cert. pem_Decode L pem = Some bytes \<and> x509_ParseCertificate L bytes = Inr cert
        \<and> cert_NotAfter cert = t)"
  by (auto simp: parseNotAfter_def split: option.splits sum.splits)

text \<open>
  Claim C7. The \<open>NotAfter\<close> of a bundle that \<open>Issue\<close> returns is what \<open>parseNotAfter\<close> reads
  in the certificate of the response (first conjunct), that is the \<open>NotAfter\<close> field of the
  certificate parsed from its first PEM block (fourth conjunct). Two issuances, whatever
  their TTL and their other settings, that receive the same certificate give the same
  \<open>NotAfter\<close> (second conjunct). When the certificate of the response does not parse the
  issuance fails (third conjunct).
\<close>

theorem NotAfter_from_issued_certificate:
  "(Issuer_Issue L i sent = (s, Inr b)
    \<longrightarrow> (\<exists>c c1 sent1 resp.
          Client i = Some c
          \<and> Client_Issue L c sent (PKIPath i) (Role i) (issue_request L i) = ((c1, sent1), Inr resp)
          \<and> parseNotAfter L (resp_Certificate resp) = Inr (NotAfter b)))
   \<and> (Client i = Some c
       \<and> Client_Issue L c sent (PKIPath i) (Role i) (issue_request L i) = ((c1, sent1), Inr resp)
       \<and> Client i' = Some c'
       \<and> Client_Issue L c' sent' (PKIPath i') (Role i') (issue_request L i') = ((c1', sent1'), Inr resp')
       \<and> resp_Certificate resp = resp_Certificate resp'
       \<and> Issuer_Issue L i sent = (s, Inr b) \<and> Issuer_Issue L i' sent' = (s', Inr b')
      \<longrightarrow> NotAfter b = NotAfter b')
   \<and> (Client i = Some c
       \<and> Client_Issue L c sent (PKIPath i) (Role i) (issue_request L i) = ((c1, sent1), Inr resp)
       \<and> parseNotAfter L (resp_Certificate resp) = Inl e
      \<longrightarrow> (\<exists>e'. snd (Issuer_Issue L i sent) = Inl e'))
   \<and> (parseNotAfter L pem = Inr t \<longleftrightarrow>
        (\<exists>bytes cert. pem_Decode L pem = Some bytes \<and> x509_ParseCertificate L bytes = Inr cert
           \<and> cert_NotAfter cert = t))"
proof (intro conjI impI)
  assume "Issuer_Issue L i sent = (s, Inr b)"
  from Issuer_Issue_ok_cases [OF this]
  show "\<exists>c c1 sent1 resp.
          Client i = Some c
          \<and> Client_Issue L c sent (PKIPath i) (Role i) (issue_request L i) = ((c1, sent1), Inr resp)
          \<and> parseNotAfter L (resp_Certificate resp) = Inr (NotAfter b)"
    by blast
next
  assume a: "Client i = Some c
       \<and> Client_Issue L c sent (PKIPath i) (Role i) (issue_request L i) = ((c1, sent1), Inr resp)
       \<and> Client i' = Some c'
       \<and> Client_Issue L c' sent' (PKIPath i') (Role i') (issue_request L i') = ((c1', sent1'), Inr resp')
       \<and> resp_Certificate resp = resp_Certificate resp'
       \<and> Issuer_Issue L i sent = (s, Inr b) \<and> Issuer_Issue L i' sent' = (s', Inr b')"
  from a Issuer_Issue_ok_cases [of L i sent s b]
  have 1: "parseNotAfter L (resp_Certificate resp) = Inr (NotAfter b)"
    by auto
  from a Issuer_Issue_ok_cases [of L i' sent' s' b']
  have 2: "parseNotAfter L (resp_Certificate resp') = Inr (NotAfter b')"
    by auto
  from 1 2 a show "NotAfter b = NotAfter b'" by simp
next
  assume a: "Client i = Some c
       \<and> Client_Issue L c sent (PKIPath i) (Role i) (issue_request L i) = ((c1, sent1), Inr resp)
       \<and> parseNotAfter L (resp_Certificate resp) = Inl e"
  then have c: "Client i = Some c"
    and r: "Client_Issue L c sent (PKIPath i) (Role i) (issue_request L i) = ((c1, sent1), Inr resp)"
    by simp_all
  show "\<exists>e'. snd (Issuer_Issue L i sent) = Inl e'"
    using a by (simp add: Issuer_Issue_build [OF c r] split: sum.splits)
next
  show "parseNotAfter L pem = Inr t \<longleftrightarrow>
        (\<exists>bytes cert. pem_Decode L pem = Some bytes \<and> x509_ParseCertificate L bytes = Inr cert
           \<and> cert_NotAfter cert = t)"
    by (rule parseNotAfter_iff)
qed

theorem NotAfter_from_issued_certificate_witness:
  "snd (Issuer_Issue (test_library (test_server ''token=good'' ''leaf+key''))
         (test_issuer (21600 * Second) False) []) = Inr (test_bundle [])
   \<and> snd (Issuer_Issue (test_library (test_server ''token=good'' ''leaf+key''))
         (test_issuer (60 * Second) False) []) = Inr (test_bundle [])
   \<and> req_TTL (issue_request (test_library (test_server ''token=good'' ''leaf+key''))
         (test_issuer (21600 * Second) False)) = ''21600s''
   \<and> req_TTL (issue_request (test_library (test_server ''token=good'' ''leaf+key''))
         (test_issuer (60 * Second) False)) = ''60s''
   \<and> parseNotAfter (test_library (test_server ''token=good'' ''leaf+key'')) ''LEAF PEM''
       = Inr (NotAfter (test_bundle []))"
proof -
  let ?N = "test_library (test_server ''token=good'' ''leaf+key'')"
  let ?X = "Issuer_Issue ?N (test_issuer (21600 * Second) False) []"
  have a: "snd ?X = Inr (test_bundle [])"
    and b: "snd (Issuer_Issue ?N (test_issuer (60 * Second) False) []) = Inr (test_bundle [])"
    and t: "req_TTL (issue_request ?N (test_issuer (21600 * Second) False)) = ''21600s''"
      "req_TTL (issue_request ?N (test_issuer (60 * Second) False)) = ''60s''"
    by code_simp+
  obtain st where "?X = (st, Inr (test_bundle []))"
    using a by (metis prod.collapse)
  with NotAfter_from_issued_certificate [where L = ?N and i = "test_issuer (21600 * Second) False"
      and sent = "[]" and s = st and b = "test_bundle []", THEN conjunct1]
  obtain c c1 sent1 resp where
    r: "Client (test_issuer (21600 * Second) False) = Some c"
      "Client_Issue ?N c [] (PKIPath (test_issuer (21600 * Second) False))
         (Role (test_issuer (21600 * Second) False))
         (issue_request ?N (test_issuer (21600 * Second) False)) = ((c1, sent1), Inr resp)"
      "parseNotAfter ?N (resp_Certificate resp) = Inr (NotAfter (test_bundle []))"
    by blast
  from r(1) have "c = token_client ''good''"
    by (simp add: test_issuer_def)
  moreover have "snd (Client_Issue ?N (token_client ''good'') []
         (PKIPath (test_issuer (21600 * Second) False))
         (Role (test_issuer (21600 * Second) False))
         (issue_request ?N (test_issuer (21600 * Second) False))) = Inr leaf_key_response"
    by code_simp
  ultimately have "resp = leaf_key_response"
    using r(2) by simp
  with r(3) have "parseNotAfter ?N ''LEAF PEM'' = Inr (NotAfter (test_bundle []))"
    by (simp add: leaf_key_response_def)
  with a b t show ?thesis by simp
qed

end
